(* ===== verification/Prelude.thy ===== *)
theory Prelude
  imports Complex_Main "HOL-Library.Multiset" "HOL-Library.AList" "HOL-Library.Stream"
begin

text \<open>
  Shared vocabulary of the development: the Go types every component uses, the
  \<^theory_text>\<open>named_theorems\<close> collections, and the generic lemmas on lists and
  association lists that carry the component proofs.
\<close>

section \<open>Go types\<close>

text \<open>
  A Go \<^verbatim>\<open>string\<close> is a byte sequence, as is \<^typ>\<open>string\<close>. A Go \<^verbatim>\<open>int\<close> or \<^verbatim>\<open>int64\<close> is an
  \<^typ>\<open>int\<close>; where the code relies on its width the range is written out. A
  \<^verbatim>\<open>time.Duration\<close> and a \<^verbatim>\<open>time.Time\<close> are counts of nanoseconds; the zero
  \<^verbatim>\<open>time.Time\<close>, which the code tests with \<^verbatim>\<open>IsZero\<close>, is \<^const>\<open>None\<close> where it can occur.
\<close>

type_synonym duration = int
type_synonym gotime = int

definition Millisecond :: duration where "Millisecond = 1000000"
definition Second :: duration where "Second = 1000000000"
definition Minute :: duration where "Minute = 60000000000"

lemma duration_values [simp]:
  "0 < Millisecond" "0 < Second" "0 < Minute" "0 \<le> Second" "0 \<le> Minute" "Second \<noteq> Minute" "Minute \<noteq> Second"
  by (simp_all add: Millisecond_def Second_def Minute_def)

definition int64_range :: "int \<Rightarrow> bool" where
  "int64_range z \<longleftrightarrow> - (2 ^ 63) \<le> z \<and> z < 2 ^ 63"

text \<open>\<^verbatim>\<open>t.Sub(u)\<close> saturates at the range of a Duration.\<close>

definition timeSub :: "gotime \<Rightarrow> gotime \<Rightarrow> duration" where
  "timeSub t u = max (- (2 ^ 63)) (min (t - u) (2 ^ 63 - 1))"

lemma timeSub_nonneg: "u \<le> t \<Longrightarrow> 0 \<le> timeSub t u"
  by (simp add: timeSub_def)

lemma timeSub_le: "u \<le> t \<Longrightarrow> timeSub t u \<le> t - u"
  by (simp add: timeSub_def)

text \<open>Go's \<^verbatim>\<open>/\<close> and \<^verbatim>\<open>%\<close> on integers truncate towards zero.\<close>

definition go_div :: "int \<Rightarrow> int \<Rightarrow> int" where
  "go_div a b = sgn a * sgn b * (\<bar>a\<bar> div \<bar>b\<bar>)"

definition go_mod :: "int \<Rightarrow> int \<Rightarrow> int" where
  "go_mod a b = a - b * go_div a b"

lemma go_div_nonneg [simp]: "0 \<le> a \<Longrightarrow> 0 < b \<Longrightarrow> go_div a b = a div b"
  by (cases "a = 0") (simp_all add: go_div_def)

lemma go_mod_nonneg [simp]: "0 \<le> a \<Longrightarrow> 0 < b \<Longrightarrow> go_mod a b = a mod b"
  by (simp add: go_mod_def minus_mult_div_eq_mod)

text \<open>\<^verbatim>\<open>configtls.ClientConfig\<close> is a library type the code only hands on.\<close>

typedecl tls_client_config

section \<open>Collections of facts\<close>

text \<open>
  \<open>f64\<close>: laws of float64 rounding; \<open>bucket\<close>: token-bucket facts; \<open>pdata\<close>: facts on
  telemetry batches and slice removal; \<open>rules\<close>: facts on compiled filter rules.
\<close>

named_theorems f64
named_theorems bucket
named_theorems pdata
named_theorems rules

section \<open>Association lists\<close>

lemma length_update_key:
  "length (AList.update k v al) = (if k \<in> fst ` set al then length al else Suc (length al))"
  by (induction al) auto

lemma length_delete_le: "length (AList.delete k al) \<le> length al"
  by (induction al) auto

section \<open>Background loops\<close>

text \<open>
  A goroutine's \<^verbatim>\<open>for { select { ... } }\<close> with one case that does work and one that returns: the stream
  holds what each \<^verbatim>\<open>select\<close> chooses, \<^const>\<open>None\<close> for the case that returns. The loop need not
  return; that it does not is the value \<^const>\<open>None\<close>.
\<close>

partial_function (option) selectLoop :: "('e \<Rightarrow> 's \<Rightarrow> 's) \<Rightarrow> 'e option stream \<Rightarrow> 's \<Rightarrow> 's option" where
  "selectLoop body evs s = (case shd evs of None \<Rightarrow> Some s | Some e \<Rightarrow> selectLoop body (stl evs) (body e s))"

lemma selectLoop_stops:
  "\<forall>i < n. evs !! i \<noteq> None \<Longrightarrow> evs !! n = None \<Longrightarrow> selectLoop body evs s = Some (fold body (map the (stake n evs)) s)"
proof (induction n arbitrary: evs s)
  case 0
  then show ?case by (subst selectLoop.simps) simp
next
  case (Suc n)
  from Suc.prems(1) have "shd evs \<noteq> None" by (auto dest: spec[of _ 0])
  moreover have "\<forall>i < n. stl evs !! i \<noteq> None" using Suc.prems(1) by (metis Suc_less_eq snth.simps(2))
  ultimately show ?case using Suc.IH[of "stl evs"] Suc.prems(2) by (subst selectLoop.simps) auto
qed

lemma selectLoop_returns: "selectLoop body evs s = Some r \<Longrightarrow> \<exists>n. evs !! n = None"
proof (rule selectLoop.raw_induct[where P = "\<lambda>body evs s r. \<exists>n. evs !! n = None"])
  fix loop :: "('e \<Rightarrow> 's \<Rightarrow> 's) \<Rightarrow> 'e option stream \<Rightarrow> 's \<Rightarrow> 's option" and body evs s r
  assume IH: "\<And>body evs s r. loop body evs s = Some r \<Longrightarrow> \<exists>n. evs !! n = None"
    and eq: "(case shd evs of None \<Rightarrow> Some s | Some e \<Rightarrow> loop body (stl evs) (body e s)) = Some r"
  show "\<exists>n. evs !! n = None"
  proof (cases "shd evs")
    case None
    then show ?thesis by (metis snth.simps(1))
  next
    case (Some e)
    with eq obtain n where "stl evs !! n = None" using IH by fastforce
    then show ?thesis by (metis snth.simps(2))
  qed
qed

lemma first_stop:
  assumes "\<exists>n. evs !! n = None"
  obtains n where "evs !! n = None" "\<forall>i < n. evs !! i \<noteq> None"
proof
  show "evs !! (LEAST n. evs !! n = None) = None" using assms by (rule LeastI_ex)
  show "\<forall>i < (LEAST n. evs !! n = None). evs !! i \<noteq> None" using not_less_Least by blast
qed

lemma selectLoop_iff: "(\<exists>r. selectLoop body evs s = Some r) \<longleftrightarrow> (\<exists>n. evs !! n = None)"
proof
  assume "\<exists>n. evs !! n = None"
  then obtain n where "evs !! n = None" "\<forall>i < n. evs !! i \<noteq> None" by (rule first_stop)
  then have "selectLoop body evs s = Some (fold body (map the (stake n evs)) s)" by (intro selectLoop_stops)
  then show "\<exists>r. selectLoop body evs s = Some r" by (rule exI)
qed (auto dest: selectLoop_returns)

end
