(* ===== verification/Shared_Registry.thy ===== *)
theory Shared_Registry
  imports Prelude
begin

text \<open>
  Reference-counted sharing of one backend per component id, the scheme of both
  \<^verbatim>\<open>storage_shared.go\<close> and \<^verbatim>\<open>store_shared.go\<close>. Backends and handles are objects the code passes by
  pointer: both live in lists and are named by their index. An entry is a record the two
  registries extend. \<open>close\<close> is the backend's \<^verbatim>\<open>Close\<close>; \<open>mk\<close> builds a new entry for a backend.
  Shown for every run: a backend is open exactly as long as a handle on it is, it is closed once,
  and all open handles of an id are on the same backend.
\<close>

section \<open>State\<close>

record sharedEntry =
  se_backend :: nat
  refs :: int
  gaugeReg :: bool
  gaugeSet :: bool

record sharedHandle =
  h_backend :: nat
  h_id :: string
  h_once :: bool

record ('st, 'e) registry =
  entries :: "string \<rightharpoonup> 'e"
  backends :: "'st list"
  handles :: "sharedHandle list"
  closedBackends :: "nat list"

definition newRegistry :: "('st, 'e) registry" where
  "newRegistry = \<lparr>entries = Map.empty, backends = [], handles = [], closedBackends = []\<rparr>"

type_synonym ('st, 'm) shared = "('st, 'm sharedEntry_scheme) registry"

section \<open>Operations\<close>

definition addHandle :: "nat \<Rightarrow> string \<Rightarrow> ('st, 'e) registry \<Rightarrow> nat \<times> ('st, 'e) registry" where
  "addHandle b i r = (length (handles r), r\<lparr>handles := handles r @ [\<lparr>h_backend = b, h_id = i, h_once = False\<rparr>]\<rparr>)"

definition acquire ::
  "(nat \<Rightarrow> 'm sharedEntry_scheme) \<Rightarrow> string \<Rightarrow> 'err + 'st \<Rightarrow> ('st, 'm) shared \<Rightarrow> ('err + nat) \<times> ('st, 'm) shared" where
  "acquire mk i build r =
     (case entries r i of
        Some e \<Rightarrow>
          let (k, r1) = addHandle (se_backend e) i (r\<lparr>entries := (entries r)(i \<mapsto> e\<lparr>refs := refs e + 1\<rparr>)\<rparr>) in (Inr k, r1)
      | None \<Rightarrow>
          (case build of
             Inl err \<Rightarrow> (Inl err, r)
           | Inr st \<Rightarrow>
               let b = length (backends r);
                   (k, r1) = addHandle b i (r\<lparr>entries := (entries r)(i \<mapsto> mk b), backends := backends r @ [st]\<rparr>)
               in (Inr k, r1)))"

definition closeBackend :: "('st \<Rightarrow> 'st) \<Rightarrow> nat \<Rightarrow> ('st, 'e) registry \<Rightarrow> ('st, 'e) registry" where
  "closeBackend close b r =
     r\<lparr>backends := (backends r)[b := close (backends r ! b)], closedBackends := closedBackends r @ [b]\<rparr>"

definition release :: "('st \<Rightarrow> 'st) \<Rightarrow> string \<Rightarrow> ('st, 'm) shared \<Rightarrow> ('st, 'm) shared" where
  "release close i r =
     (case entries r i of
        None \<Rightarrow> r
      | Some e \<Rightarrow>
          let e1 = e\<lparr>refs := refs e - 1\<rparr>
          in if 0 < refs e1 then r\<lparr>entries := (entries r)(i \<mapsto> e1)\<rparr>
             else closeBackend close (se_backend e1) (r\<lparr>entries := (entries r)(i := None)\<rparr>))"

text \<open>\<^verbatim>\<open>Close\<close> of a handle: the release runs once, a second call does nothing.\<close>

definition closeHandle :: "('st \<Rightarrow> 'st) \<Rightarrow> nat \<Rightarrow> ('st, 'm) shared \<Rightarrow> ('st, 'm) shared" where
  "closeHandle close k r =
     (let h = handles r ! k
      in if h_once h then r
         else release close (h_id h) (r\<lparr>handles := (handles r)[k := h\<lparr>h_once := True\<rparr>]\<rparr>))"

text \<open>\<open>reg\<close> is the outcome of the callback's registration, made by the first pipeline only.\<close>

definition registerGauges :: "string \<Rightarrow> 'err option \<Rightarrow> ('st, 'm) shared \<Rightarrow> 'err option \<times> ('st, 'm) shared" where
  "registerGauges i reg r =
     (case entries r i of
        None \<Rightarrow> (None, r)
      | Some e \<Rightarrow>
          if gaugeSet e then (None, r)
          else (case reg of
              Some err \<Rightarrow> (Some err, r)
            | None \<Rightarrow> (None, r\<lparr>entries := (entries r)(i \<mapsto> e\<lparr>gaugeReg := True, gaugeSet := True\<rparr>)\<rparr>)))"

section \<open>Runs\<close>

definition openHandles :: "('st, 'e) registry \<Rightarrow> string \<Rightarrow> sharedHandle list" where
  "openHandles r i = filter (\<lambda>h. h_id h = i \<and> \<not> h_once h) (handles r)"

text \<open>
  The steps of a run: an acquire, the closing of a handle, a change of an entry's flags, and the
  use of a backend through a handle.
\<close>

inductive shared_run :: "(nat \<Rightarrow> 'm sharedEntry_scheme) \<Rightarrow> ('st \<Rightarrow> 'st) \<Rightarrow> ('st, 'm) shared \<Rightarrow> bool" for mk close where
  run_new: "shared_run mk close newRegistry"
| run_acquire: "shared_run mk close r \<Longrightarrow> shared_run mk close (snd (acquire mk i (build :: string + 'st) r))"
| run_close: "shared_run mk close r \<Longrightarrow> k < length (handles r) \<Longrightarrow> shared_run mk close (closeHandle close k r)"
| run_flags: "shared_run mk close r \<Longrightarrow> entries r i = Some e \<Longrightarrow> se_backend e' = se_backend e \<Longrightarrow> refs e' = refs e
    \<Longrightarrow> shared_run mk close (r\<lparr>entries := (entries r)(i \<mapsto> e')\<rparr>)"
| run_use: "shared_run mk close r \<Longrightarrow> shared_run mk close (r\<lparr>backends := (backends r)[b := st]\<rparr>)"

text \<open>The backend of each id, and what the entry of an id says about its open handles.\<close>

definition backendOf :: "('st, 'm) shared \<Rightarrow> string \<rightharpoonup> nat" where
  "backendOf r i = map_option se_backend (entries r i)"

definition id_ok :: "('st, 'm) shared \<Rightarrow> string \<Rightarrow> bool" where
  "id_ok r i \<longleftrightarrow> (case entries r i of
     None \<Rightarrow> openHandles r i = []
   | Some e \<Rightarrow> refs e = int (length (openHandles r i)) \<and> openHandles r i \<noteq> []
       \<and> (\<forall>h \<in> set (openHandles r i). h_backend h = se_backend e))"

definition reg_inv :: "('st, 'm) shared \<Rightarrow> bool" where
  "reg_inv r \<longleftrightarrow> (\<forall>i. id_ok r i) \<and> inj_on (backendOf r) (dom (backendOf r))
     \<and> ran (backendOf r) \<inter> set (closedBackends r) = {} \<and> ran (backendOf r) \<union> set (closedBackends r) = {..<length (backends r)}
     \<and> distinct (closedBackends r)"

lemma openHandles_frame [simp]:
  "openHandles (r\<lparr>entries := es\<rparr>) i = openHandles r i" "openHandles (r\<lparr>backends := bs\<rparr>) i = openHandles r i"
  "openHandles (closeBackend close b r) i = openHandles r i"
  by (simp_all add: openHandles_def closeBackend_def)

lemma openHandles_add:
  "openHandles (snd (addHandle b i r)) j = openHandles r j @ (if j = i then [\<lparr>h_backend = b, h_id = i, h_once = False\<rparr>] else [])"
  by (simp add: openHandles_def addHandle_def)

lemma addHandle_frame [simp]:
  "entries (snd (addHandle b i r)) = entries r" "backends (snd (addHandle b i r)) = backends r"
  "closedBackends (snd (addHandle b i r)) = closedBackends r" "fst (addHandle b i r) = length (handles r)"
  by (simp_all add: addHandle_def)

lemma backendOf_upd: "backendOf r' = (backendOf r)(i := map_option se_backend x)" if "entries r' = (entries r)(i := x)"
  using that by (simp add: backendOf_def fun_eq_iff)

lemma backendOf_same: "entries r i = Some e \<Longrightarrow> se_backend e' = se_backend e \<Longrightarrow> entries r' = (entries r)(i \<mapsto> e') \<Longrightarrow> backendOf r' = backendOf r"
  by (auto simp: backendOf_def fun_eq_iff)

lemma ran_delete: "inj_on m (dom m) \<Longrightarrow> m i = Some b \<Longrightarrow> ran (m(i := None)) = ran m - {b}"
proof -
  assume inj: "inj_on m (dom m)" and i: "m i = Some b"
  have "j = i" if "m j = Some b" for j using inj_onD[OF inj, of j i] that i by (simp add: domI)
  then have only: "m j = Some b \<longleftrightarrow> j = i" for j using i by blast
  show ?thesis
  proof (intro set_eqI)
    fix x
    have "(\<exists>j. j \<noteq> i \<and> m j = Some x) \<longleftrightarrow> (\<exists>j. m j = Some x) \<and> x \<noteq> b"
      using i only by (metis option.inject)
    then show "x \<in> ran (m(i := None)) \<longleftrightarrow> x \<in> ran m - {b}" by (simp add: ran_def cong: conj_cong)
  qed
qed

text \<open>Changes that keep the backends and the open handles of every other id.\<close>

lemma reg_inv_same:
  assumes "reg_inv r" "backendOf r' = backendOf r" "closedBackends r' = closedBackends r"
    and "length (backends r') = length (backends r)" "\<And>j. id_ok r' j"
  shows "reg_inv r'"
  using assms by (simp add: reg_inv_def)

lemma id_ok_other:
  "id_ok r j \<Longrightarrow> entries r' j = entries r j \<Longrightarrow> openHandles r' j = openHandles r j \<Longrightarrow> id_ok r' j"
  by (simp add: id_ok_def split: option.splits)

lemma acquire_inv:
  assumes inv: "reg_inv r" and mk: "\<And>b. se_backend (mk b) = b \<and> refs (mk b) = 1"
  shows "reg_inv (snd (acquire mk i build r))"
proof (cases "entries r i")
  case (Some e)
  let ?r = "snd (acquire mk i build r)"
  have r: "?r = snd (addHandle (se_backend e) i (r\<lparr>entries := (entries r)(i \<mapsto> e\<lparr>refs := refs e + 1\<rparr>)\<rparr>))"
    by (simp add: acquire_def Some split_beta)
  show ?thesis
  proof (rule reg_inv_same[OF inv])
    show "backendOf ?r = backendOf r" by (rule backendOf_same[OF Some, of "e\<lparr>refs := refs e + 1\<rparr>"]) (simp_all add: r)
    fix j
    have "id_ok r j" using inv by (simp add: reg_inv_def)
    then show "id_ok ?r j"
      by (cases "j = i") (auto simp: r id_ok_def openHandles_add Some split: option.splits)
  qed (simp_all add: r)
next
  case None
  show ?thesis
  proof (cases build)
    case (Inl err)
    then show ?thesis using None inv by (simp add: acquire_def)
  next
    case (Inr st)
    let ?r = "snd (acquire mk i build r)" and ?b = "length (backends r)"
    have r: "?r = snd (addHandle ?b i (r\<lparr>entries := (entries r)(i \<mapsto> mk ?b), backends := backends r @ [st]\<rparr>))"
      by (simp add: acquire_def None Inr split_beta Let_def)
    have m: "backendOf ?r = (backendOf r)(i \<mapsto> ?b)"
      using backendOf_upd[of ?r r i "Some (mk ?b)"] mk by (simp add: r)
    have i: "backendOf r i = None" using None by (simp add: backendOf_def)
    have old: "\<And>j. id_ok r j" "inj_on (backendOf r) (dom (backendOf r))" "ran (backendOf r) \<inter> set (closedBackends r) = {}"
      "ran (backendOf r) \<union> set (closedBackends r) = {..<?b}" "distinct (closedBackends r)"
      using inv by (simp_all add: reg_inv_def)
    have ran: "ran (backendOf ?r) = insert ?b (ran (backendOf r))" using i by (simp add: m)
    have "?b \<notin> ran (backendOf r)" "?b \<notin> set (closedBackends r)" using old(4) by auto
    then have "inj_on (backendOf ?r) (dom (backendOf ?r))"
      using old(2) i by (auto simp: m inj_on_def dom_def ran_def)
    moreover have "id_ok ?r j" for j
      using old(1)[of j] mk by (cases "j = i") (auto simp: r id_ok_def openHandles_add None split: option.splits)
    ultimately show ?thesis
      using old ran by (auto simp: reg_inv_def r less_Suc_eq)
  qed
qed

lemma openHandles_close:
  assumes "k < length (handles r)" "\<not> h_once (handles r ! k)"
  defines "h \<equiv> handles r ! k" and "r' \<equiv> r\<lparr>handles := (handles r)[k := (handles r ! k)\<lparr>h_once := True\<rparr>]\<rparr>"
  shows "j \<noteq> h_id h \<Longrightarrow> openHandles r' j = openHandles r j"
    "length (openHandles r (h_id h)) = Suc (length (openHandles r' (h_id h)))"
    "set (openHandles r' (h_id h)) \<subseteq> set (openHandles r (h_id h))"
proof -
  have split: "handles r = take k (handles r) @ h # drop (Suc k) (handles r)"
    "handles r' = take k (handles r) @ h\<lparr>h_once := True\<rparr> # drop (Suc k) (handles r)"
    using assms(1) by (simp_all add: h_def r'_def id_take_nth_drop upd_conv_take_nth_drop)
  have o: "openHandles r j = filter (\<lambda>x. h_id x = j \<and> \<not> h_once x) (take k (handles r)) @ (if h_id h = j then [h] else [])
      @ filter (\<lambda>x. h_id x = j \<and> \<not> h_once x) (drop (Suc k) (handles r))" for j
    unfolding openHandles_def by (subst split(1)) (use assms(2) in \<open>simp add: h_def\<close>)
  have o': "openHandles r' j = filter (\<lambda>x. h_id x = j \<and> \<not> h_once x) (take k (handles r))
      @ filter (\<lambda>x. h_id x = j \<and> \<not> h_once x) (drop (Suc k) (handles r))" for j
    unfolding openHandles_def split(2) by simp
  show "j \<noteq> h_id h \<Longrightarrow> openHandles r' j = openHandles r j"
    "length (openHandles r (h_id h)) = Suc (length (openHandles r' (h_id h)))"
    "set (openHandles r' (h_id h)) \<subseteq> set (openHandles r (h_id h))"
    by (auto simp: o o')
qed

lemma closeHandle_inv:
  assumes inv: "reg_inv r" and k: "k < length (handles r)"
  shows "reg_inv (closeHandle close k r)"
proof (cases "h_once (handles r ! k)")
  case True
  then show ?thesis using inv by (simp add: closeHandle_def)
next
  case False
  define i where "i = h_id (handles r ! k)"
  define r1 where "r1 = r\<lparr>handles := (handles r)[k := (handles r ! k)\<lparr>h_once := True\<rparr>]\<rparr>"
  note oh = openHandles_close[OF k False, folded r1_def i_def]
  have frame: "entries r1 = entries r" "backends r1 = backends r" "closedBackends r1 = closedBackends r"
    by (simp_all add: r1_def)
  have cl: "closeHandle close k r = release close i r1" using False by (simp add: closeHandle_def r1_def i_def Let_def)
  have old: "\<And>j. id_ok r j" "inj_on (backendOf r) (dom (backendOf r))" "ran (backendOf r) \<inter> set (closedBackends r) = {}"
    "ran (backendOf r) \<union> set (closedBackends r) = {..<length (backends r)}" "distinct (closedBackends r)"
    using inv by (simp_all add: reg_inv_def)
  obtain e where e: "entries r i = Some e" "refs e = int (length (openHandles r i))"
    "\<forall>h \<in> set (openHandles r i). h_backend h = se_backend e"
    using old(1)[of i] oh(2) by (auto simp: id_ok_def split: option.splits)
  show ?thesis
  proof (cases "0 < refs e - 1")
    case True
    let ?r = "r1\<lparr>entries := (entries r1)(i \<mapsto> e\<lparr>refs := refs e - 1\<rparr>)\<rparr>"
    have "reg_inv ?r"
    proof (rule reg_inv_same[OF inv])
      show "backendOf ?r = backendOf r" by (rule backendOf_same[OF e(1), of "e\<lparr>refs := refs e - 1\<rparr>"]) (simp_all add: frame)
      fix j
      show "id_ok ?r j"
      proof (cases "j = i")
        case True
        then show ?thesis using \<open>0 < refs e - 1\<close> oh(2,3) e by (auto simp: id_ok_def)
      next
        case False
        then show ?thesis using oh(1) frame by (intro id_ok_other[OF old(1)[of j]]) simp_all
      qed
    qed (simp_all add: frame)
    then show ?thesis using True by (simp add: cl release_def frame e(1))
  next
    case False
    let ?r = "closeBackend close (se_backend e) (r1\<lparr>entries := (entries r1)(i := None)\<rparr>)"
    have none: "openHandles r1 i = []" using False oh(2) e(2) by (cases "openHandles r1 i") auto
    have m: "backendOf ?r = (backendOf r)(i := None)"
      using backendOf_upd[of ?r r i None] by (simp add: closeBackend_def frame)
    have b: "backendOf r i = Some (se_backend e)" by (simp add: backendOf_def e(1))
    have ran: "ran (backendOf ?r) = ran (backendOf r) - {se_backend e}"
      unfolding m by (rule ran_delete[OF old(2) b])
    have mem: "se_backend e \<in> ran (backendOf r)" using b by (auto simp: ran_def)
    have "inj_on (backendOf ?r) (dom (backendOf ?r))" using old(2) by (auto simp: m inj_on_def dom_def)
    moreover have "id_ok ?r j" for j
      using old(1)[of j] none oh(1)[of j] by (cases "j = i") (auto simp: id_ok_def closeBackend_def[of close] frame openHandles_def split: option.splits)
    ultimately have "reg_inv ?r" using old ran mem by (auto simp: reg_inv_def closeBackend_def frame)
    then show ?thesis using False by (simp add: cl release_def frame e(1))
  qed
qed

lemma shared_run_inv:
  assumes "shared_run mk close r" "\<And>b. se_backend (mk b) = b \<and> refs (mk b) = 1"
  shows "reg_inv r"
  using assms(1)
proof (induction rule: shared_run.induct)
  case run_new
  show ?case by (simp add: reg_inv_def newRegistry_def id_ok_def openHandles_def backendOf_def dom_def ran_def)
next
  case (run_acquire r i build)
  then show ?case by (intro acquire_inv assms(2))
next
  case (run_close r k)
  then show ?case by (intro closeHandle_inv)
next
  case (run_flags r i e e')
  show ?case
  proof (rule reg_inv_same[OF run_flags.IH])
    show "backendOf (r\<lparr>entries := (entries r)(i \<mapsto> e')\<rparr>) = backendOf r" by (rule backendOf_same[OF run_flags(2,3)]) simp
    fix j
    have "id_ok r j" using run_flags.IH by (simp add: reg_inv_def)
    then show "id_ok (r\<lparr>entries := (entries r)(i \<mapsto> e')\<rparr>) j"
      using run_flags(2-4) by (cases "j = i") (auto simp: id_ok_def split: option.splits)
  qed simp_all
next
  case (run_use r b st)
  have ok: "id_ok r j" for j using run_use.IH by (simp add: reg_inv_def)
  have "id_ok (r\<lparr>backends := (backends r)[b := st]\<rparr>) j" for j
    by (rule id_ok_other[OF ok[of j]]) simp_all
  then show ?case by (rule reg_inv_same[OF run_use.IH, rotated 3]) (simp_all add: backendOf_def fun_eq_iff)
qed

text \<open>The consequence both registries rely on.\<close>

lemma reg_inv_handles:
  assumes "reg_inv r" "h \<in> set (handles r)" "\<not> h_once h"
  obtains e where "entries r (h_id h) = Some e" "se_backend e = h_backend h" "h_backend h < length (backends r)"
    "h_backend h \<notin> set (closedBackends r)"
proof -
  have "h \<in> set (openHandles r (h_id h))" using assms(2,3) by (simp add: openHandles_def)
  moreover have "id_ok r (h_id h)" using assms(1) by (simp add: reg_inv_def)
  ultimately obtain e where e: "entries r (h_id h) = Some e" "h_backend h = se_backend e"
    by (auto simp: id_ok_def split: option.splits)
  then have "h_backend h \<in> ran (backendOf r)" by (auto simp: ran_def backendOf_def intro!: exI[of _ "h_id h"])
  with assms(1) e that show thesis by (auto simp: reg_inv_def)
qed

lemma reg_inv_closed:
  assumes "reg_inv r" "b < length (backends r)"
  shows "b \<in> set (closedBackends r) \<longleftrightarrow> \<not> (\<exists>h \<in> set (handles r). \<not> h_once h \<and> h_backend h = b)"
proof
  assume "b \<in> set (closedBackends r)"
  then show "\<not> (\<exists>h \<in> set (handles r). \<not> h_once h \<and> h_backend h = b)" using reg_inv_handles[OF assms(1)] by metis
next
  assume none: "\<not> (\<exists>h \<in> set (handles r). \<not> h_once h \<and> h_backend h = b)"
  show "b \<in> set (closedBackends r)"
  proof (rule ccontr)
    assume "b \<notin> set (closedBackends r)"
    then have "b \<in> ran (backendOf r)" using assms by (auto simp: reg_inv_def)
    then obtain i e where e: "entries r i = Some e" "se_backend e = b" by (auto simp: ran_def backendOf_def)
    then obtain h where "h \<in> set (openHandles r i)" "h_backend h = b"
      using assms(1) by (auto simp: reg_inv_def id_ok_def dest!: spec[of _ i] split: option.splits) (metis list.set_intros(1) neq_Nil_conv)
    then show False using none by (auto simp: openHandles_def)
  qed
qed

lemma reg_inv_lifetime:
  assumes inv: "reg_inv r"
  shows "(\<forall>h \<in> set (handles r). \<forall>h' \<in> set (handles r). \<not> h_once h \<and> \<not> h_once h' \<and> h_id h = h_id h' \<longrightarrow> h_backend h = h_backend h')
    \<and> (\<forall>b < length (backends r). b \<in> set (closedBackends r) \<longleftrightarrow> \<not> (\<exists>h \<in> set (handles r). \<not> h_once h \<and> h_backend h = b))
    \<and> distinct (closedBackends r)"
proof -
  have "h_backend h = h_backend h'"
    if hs: "h \<in> set (handles r)" "h' \<in> set (handles r)" "\<not> h_once h" "\<not> h_once h'" "h_id h = h_id h'" for h h'
  proof -
    obtain e where "entries r (h_id h) = Some e" "se_backend e = h_backend h" by (rule reg_inv_handles[OF inv hs(1,3)])
    moreover obtain e' where "entries r (h_id h') = Some e'" "se_backend e' = h_backend h'" by (rule reg_inv_handles[OF inv hs(2,4)])
    ultimately show ?thesis using hs(5) by simp
  qed
  moreover have "distinct (closedBackends r)" using inv by (simp add: reg_inv_def)
  ultimately show ?thesis using reg_inv_closed[OF inv] by blast
qed

text \<open>The registry does not depend on the error a failed build reports.\<close>

lemma acquire_err: "snd (acquire mk i build r) = snd (acquire mk i (map_sum f (\<lambda>st. st) build) r)"
  by (cases build) (simp_all add: acquire_def split_beta Let_def split: option.split)

lemma run_acquire_any: "shared_run mk close r \<Longrightarrow> shared_run mk close (snd (acquire mk i build r))"
  using run_acquire[of mk close r i "map_sum (\<lambda>_. ''error'') (\<lambda>st. st) build"] acquire_err[of mk i build r "\<lambda>_. ''error''"] by simp

lemma run_registerGauges: "shared_run mk close r \<Longrightarrow> shared_run mk close (snd (registerGauges i reg r))"
  by (auto simp: registerGauges_def intro: run_flags split: option.split)

end
