(* ===== verification/Float64.thy ===== *)
theory Float64
  imports Prelude "HOL-Library.Log_Nat"
begin

text \<open>
  Go's \<^verbatim>\<open>float64\<close> (IEEE 754 binary64, round to nearest, ties to even). A finite value is
  the rational it denotes; \<open>fl\<close> rounds the exact result of an operation to the nearest
  float64, so a Go expression \<^verbatim>\<open>a + b\<close> is \<open>fl (a + b)\<close>. The type \<open>f64\<close> adds the values
  an operator can put into a configuration file but the arithmetic of the buckets never
  produces: infinities and NaN. The theory shows that \<open>fl\<close> is monotone, idempotent,
  exact on 53-bit dyadic rationals and accurate to half a unit in the last place, and
  states these laws as the locale \<open>rounding\<close> that the token bucket relies on.
\<close>

section \<open>Rounding to the nearest float64\<close>

definition round_half_even :: "rat \<Rightarrow> int" where
  "round_half_even x =
     (let n = \<lfloor>x\<rfloor>; d = x - of_int n
      in if d < 1 / 2 then n else if 1 / 2 < d then n + 1 else if even n then n else n + 1)"

definition ilog2 :: "rat \<Rightarrow> int" where
  "ilog2 x =
     (case quotient_of x of (p, q) \<Rightarrow>
        let k = bitlen p - bitlen q in if 2 powi k \<le> x then k else k - 1)"

definition f64_exp :: "rat \<Rightarrow> int" where
  "f64_exp x = max (ilog2 \<bar>x\<bar> - 52) (- 1074)"

definition fl :: "rat \<Rightarrow> rat" where
  "fl x = (if x = 0 then 0
           else of_int (round_half_even (x / 2 powi f64_exp x)) * 2 powi f64_exp x)"

lemma round_half_even_mono: "x \<le> y \<Longrightarrow> round_half_even x \<le> round_half_even y"
proof -
  assume le: "x \<le> y"
  show ?thesis
  proof (cases "\<lfloor>x\<rfloor> = \<lfloor>y\<rfloor>")
    case True
    with le show ?thesis by (auto simp: round_half_even_def Let_def)
  next
    case False
    with le have "\<lfloor>x\<rfloor> + 1 \<le> \<lfloor>y\<rfloor>" using floor_mono by fastforce
    then show ?thesis by (auto simp: round_half_even_def Let_def)
  qed
qed

lemma round_half_even_int [simp]: "round_half_even (of_int n) = n"
  by (simp add: round_half_even_def)

lemma round_half_even_numeral [simp]:
  "round_half_even 0 = 0" "round_half_even (numeral k) = numeral k"
  using round_half_even_int[of 0] round_half_even_int[of "numeral k"]
  by (simp_all del: round_half_even_int)

lemma powi2_less_iff: "(2::rat) powi a < 2 powi b \<longleftrightarrow> a < b"
proof
  assume *: "(2::rat) powi a < 2 powi b"
  show "a < b"
  proof (rule ccontr)
    assume "\<not> a < b"
    then have "(2::rat) powi b \<le> 2 powi a" by (intro power_int_increasing) auto
    with * show False by simp
  qed
qed (simp add: power_int_strict_increasing)

lemma round_half_even_uminus: "round_half_even (- x) = - round_half_even x"
proof (cases "x \<in> \<int>")
  case True
  then show ?thesis
    by (metis Ints_cases of_int_minus round_half_even_int)
next
  case False
  then have fl: "\<lfloor>- x\<rfloor> = - \<lfloor>x\<rfloor> - 1"
    by (metis Ints_of_int ceiling_altdef ceiling_def diff_minus_eq_add minus_diff_eq
        minus_add_distrib uminus_add_conv_diff add.inverse_inverse)
  show ?thesis
    unfolding round_half_even_def Let_def fl by (auto simp: field_simps)
qed

lemma round_half_even_error: "\<bar>of_int (round_half_even x) - x\<bar> \<le> 1 / 2"
proof -
  have "of_int \<lfloor>x\<rfloor> \<le> x" "x < of_int \<lfloor>x\<rfloor> + 1" by linarith+
  then show ?thesis unfolding round_half_even_def Let_def by (auto simp: abs_le_iff)
qed

lemma bitlen_bounds_rat:
  assumes "0 < (n :: int)"
  shows "(2::rat) powi (bitlen n - 1) \<le> of_int n" "of_int n < (2::rat) powi bitlen n"
proof -
  have nn: "0 \<le> bitlen n - 1" using assms bitlen_eq_zero_iff[of n] bitlen_nonneg[of n] by linarith
  have "2 ^ nat (bitlen n - 1) \<le> n" "n < 2 ^ nat (bitlen n)"
    using bitlen_bounds[OF assms] by auto
  then have "of_int (2 ^ nat (bitlen n - 1)) \<le> (of_int n :: rat)"
    "(of_int n :: rat) < of_int (2 ^ nat (bitlen n))"
    by (simp_all only: of_int_le_iff of_int_less_iff)
  with nn show "(2::rat) powi (bitlen n - 1) \<le> of_int n" "of_int n < (2::rat) powi bitlen n"
    by (simp_all add: power_int_def)
qed

lemma ilog2_bounds:
  assumes "0 < x"
  shows "2 powi ilog2 x \<le> x" "x < 2 powi (ilog2 x + 1)"
proof -
  obtain p q where pq: "quotient_of x = (p, q)" by force
  then have q: "0 < q" and x: "x = of_int p / of_int q"
    by (auto dest: quotient_of_denom_pos quotient_of_div)
  with assms have p: "0 < p" by (simp add: zero_less_divide_iff)
  let ?k = "bitlen p - bitlen q"
  have "2 powi (?k - 1) = (2::rat) powi (bitlen p - 1) / 2 powi bitlen q"
    by (simp add: power_int_diff)
  also have "\<dots> \<le> of_int p / of_int q"
    using bitlen_bounds_rat[OF p] bitlen_bounds_rat[OF q] p q
    by (intro frac_le) auto
  finally have lo: "2 powi (?k - 1) \<le> x" by (simp add: x)
  have "of_int p / of_int q < (2::rat) powi bitlen p / 2 powi (bitlen q - 1)"
    using bitlen_bounds_rat[OF p] bitlen_bounds_rat[OF q] p q
    by (intro frac_less) auto
  also have "\<dots> = 2 powi (?k + 1)"
    by (simp add: power_int_diff power_int_add)
  finally have hi: "x < 2 powi (?k + 1)" by (simp add: x)
  show "2 powi ilog2 x \<le> x" "x < 2 powi (ilog2 x + 1)"
    using lo hi by (auto simp: ilog2_def pq Let_def)
qed


lemma ilog2_eqI:
  assumes "2 powi k \<le> x" "x < 2 powi (k + 1)"
  shows "ilog2 x = k"
proof -
  have x: "0 < x" using assms(1) by (meson less_le_trans zero_less_numeral zero_less_power_int)
  note b = ilog2_bounds[OF x]
  have "(2::rat) powi k < 2 powi (ilog2 x + 1)" "(2::rat) powi ilog2 x < 2 powi (k + 1)"
    using assms b by linarith+
  then have "k < ilog2 x + 1" "ilog2 x < k + 1"
    by (simp_all add: powi2_less_iff)
  then show ?thesis by linarith
qed

lemma ilog2_mono: "0 < x \<Longrightarrow> x \<le> y \<Longrightarrow> ilog2 x \<le> ilog2 y"
proof -
  assume a: "0 < x" "x \<le> y"
  have "(2::rat) powi ilog2 x < 2 powi (ilog2 y + 1)"
    using ilog2_bounds[of x] ilog2_bounds[of y] a by linarith
  then show ?thesis by (simp add: powi2_less_iff)
qed

lemma fl_0 [simp, f64]: "fl 0 = 0"
  by (simp add: fl_def)

lemma fl_uminus [f64]: "fl (- x) = - fl x"
  by (simp add: fl_def f64_exp_def round_half_even_uminus)

lemma f64_exp_ge: "- 1074 \<le> f64_exp x"
  by (simp add: f64_exp_def)

lemma scaled_bound:
  assumes "0 < x" shows "x / 2 powi f64_exp x < 2 ^ 53"
proof -
  have "x < 2 powi (ilog2 x + 1)" using ilog2_bounds[OF assms] by simp
  also have "\<dots> \<le> 2 powi (f64_exp x + 53)"
    using assms by (intro power_int_increasing) (auto simp: f64_exp_def)
  also have "\<dots> = 2 ^ 53 * 2 powi f64_exp x"
    by (simp add: power_int_add)
  finally show ?thesis by (simp add: field_simps)
qed

lemma scaled_lower:
  assumes "0 < x" "- 1074 < f64_exp x" shows "2 ^ 52 \<le> x / 2 powi f64_exp x"
proof -
  have e: "ilog2 x = f64_exp x + 52" using assms by (auto simp: f64_exp_def max_def split: if_splits)
  have "2 ^ 52 * 2 powi f64_exp x = (2::rat) powi ilog2 x"
    by (simp add: e power_int_add)
  also have "\<dots> \<le> x" using ilog2_bounds[OF assms(1)] by simp
  finally show ?thesis by (simp add: field_simps)
qed

text \<open>The canonical shape of a finite float64: at most 53 bits of mantissa.\<close>

lemma fl_shape:
  "\<exists>m e. fl x = of_int m * 2 powi e \<and> \<bar>m\<bar> \<le> 2 ^ 53 \<and> - 1074 \<le> e"
proof (cases "x = 0")
  case True
  then show ?thesis by (intro exI[of _ 0] exI[of _ 0]) simp
next
  case False
  let ?m = "round_half_even (x / 2 powi f64_exp x)"
  have pos: "round_half_even (y / 2 powi f64_exp y) \<le> 2 ^ 53 \<and>
      0 \<le> round_half_even (y / 2 powi f64_exp y)" if "0 < y" for y
  proof -
    have "round_half_even (y / 2 powi f64_exp y) \<le> round_half_even (of_int (2 ^ 53))"
      using scaled_bound[OF that] by (intro round_half_even_mono) simp
    moreover have "round_half_even (of_int 0) \<le> round_half_even (y / 2 powi f64_exp y)"
      using that by (intro round_half_even_mono) simp
    ultimately show ?thesis by simp
  qed
  have "\<bar>?m\<bar> \<le> 2 ^ 53"
  proof (cases "0 < x")
    case True
    with pos[of x] show ?thesis by simp
  next
    case neg: False
    with False have "0 < - x" by simp
    moreover have "f64_exp (- x) = f64_exp x" by (simp add: f64_exp_def)
    ultimately show ?thesis using pos[of "- x"] by (simp add: round_half_even_uminus)
  qed
  with False f64_exp_ge[of x] show ?thesis
    by (intro exI[of _ ?m] exI[of _ "f64_exp x"]) (simp add: fl_def)
qed

lemma fl_dyadic_pos:
  assumes m: "0 < m" "m < 2 ^ 53" and e: "- 1074 \<le> e"
  shows "fl (of_int m * 2 powi e) = of_int m * 2 powi e"
proof -
  define x :: rat where "x = of_int m * 2 powi e"
  have x: "0 < x" using m by (simp add: x_def)
  have "of_int m < (of_int (2 ^ 53) :: rat)" using m(2) by (simp only: of_int_less_iff)
  then have "x < 2 ^ 53 * 2 powi e" by (simp add: x_def)
  also have "\<dots> = 2 powi (e + 53)" by (simp add: power_int_add)
  finally have "2 powi ilog2 x < (2::rat) powi (e + 53)"
    using ilog2_bounds[OF x] by linarith
  then have "ilog2 x \<le> e + 52" by (simp add: powi2_less_iff)
  with e x have le: "f64_exp x \<le> e" by (simp add: f64_exp_def)
  define k where "k = nat (e - f64_exp x)"
  have e_eq: "e = f64_exp x + int k" using le by (simp add: k_def)
  have pw: "(2::rat) powi e = 2 ^ k * 2 powi f64_exp x"
    by (subst e_eq) (simp add: power_int_add)
  have x_eq: "x = of_int (m * 2 ^ k) * 2 powi f64_exp x"
    using x_def pw by simp
  then have "x / 2 powi f64_exp x = of_int (m * 2 ^ k)"
    by (metis nonzero_mult_div_cancel_right power_int_eq_0_iff zero_neq_numeral)
  then have "fl x = of_int (m * 2 ^ k) * 2 powi f64_exp x"
    using x by (simp only: fl_def round_half_even_int) simp
  then show ?thesis using x_eq by (simp only: x_def)
qed


lemma fl_powi:
  assumes "- 1074 \<le> e" shows "fl (2 powi e) = 2 powi e"
  using fl_dyadic_pos[of 1 e] assms by simp

text \<open>Every dyadic rational with a 53-bit mantissa is a float64: \<^const>\<open>fl\<close> keeps it.\<close>

lemma fl_dyadic [f64]:
  assumes m: "\<bar>m\<bar> \<le> 2 ^ 53" and e: "- 1074 \<le> e"
  shows "fl (of_int m * 2 powi e) = of_int m * 2 powi e"
proof -
  have pos: "fl (of_int k * 2 powi e) = of_int k * 2 powi e" if "0 < k" "k \<le> 2 ^ 53" for k
  proof (cases "k = 2 ^ 53")
    case True
    then have "of_int k * 2 powi e = (2::rat) powi (e + 53)" by (simp add: power_int_add)
    with e show ?thesis by (simp add: fl_powi)
  next
    case False
    with that e show ?thesis by (intro fl_dyadic_pos) auto
  qed
  consider "m = 0" | "0 < m" | "0 < - m" by linarith
  then show ?thesis
  proof cases
    case 3
    with m have "fl (of_int (- m) * 2 powi e) = of_int (- m) * 2 powi e" by (intro pos) auto
    then show ?thesis by (simp add: fl_uminus)
  qed (use m pos in auto)
qed

lemma fl_idem [simp, f64]: "fl (fl x) = fl x"
  using fl_shape[of x] fl_dyadic by force

lemma fl_of_int [f64]: "\<bar>n\<bar> \<le> 2 ^ 53 \<Longrightarrow> fl (of_int n) = of_int n"
  using fl_dyadic[of n 0] by simp

lemma fl_1 [simp]: "fl 1 = 1"
  using fl_of_int[of 1] by simp

lemma fl_numeral: "(numeral n :: int) \<le> 2 ^ 53 \<Longrightarrow> fl (numeral n) = numeral n"
  using fl_of_int[of "numeral n"] by simp

lemma fl_nonneg [f64]: "0 \<le> x \<Longrightarrow> 0 \<le> fl x"
  using round_half_even_mono[of 0 "x / 2 powi f64_exp x"] by (simp add: fl_def)

text \<open>Rounding is monotone, across binades too.\<close>

lemma fl_mono_pos:
  assumes "0 < x" "x \<le> y" shows "fl x \<le> fl y"
proof (cases "f64_exp x = f64_exp y")
  case True
  have "x / 2 powi f64_exp y \<le> y / 2 powi f64_exp y"
    using assms by (intro divide_right_mono) auto
  then have "round_half_even (x / 2 powi f64_exp y) \<le> round_half_even (y / 2 powi f64_exp y)"
    by (rule round_half_even_mono)
  with assms True show ?thesis by (simp add: fl_def)
next
  case False
  have y: "0 < y" using assms by simp
  have "f64_exp x \<le> f64_exp y" using ilog2_mono[of x y] assms by (auto simp: f64_exp_def)
  with False have lt: "f64_exp x + 1 \<le> f64_exp y" by simp
  have "round_half_even (x / 2 powi f64_exp x) \<le> round_half_even (of_int (2 ^ 53))"
    using scaled_bound[OF assms(1)] by (intro round_half_even_mono) simp
  then have "of_int (round_half_even (x / 2 powi f64_exp x)) \<le> (of_int (2 ^ 53) :: rat)"
    by (simp only: of_int_le_iff round_half_even_int)
  with assms have "fl x \<le> 2 ^ 53 * 2 powi f64_exp x" by (simp add: fl_def)
  also have "\<dots> = 2 ^ 52 * 2 powi (f64_exp x + 1)" by (simp add: power_int_add)
  also have "\<dots> \<le> 2 ^ 52 * 2 powi f64_exp y"
    using lt by (intro mult_left_mono power_int_increasing) auto
  also have "\<dots> \<le> fl y"
  proof -
    have "- 1074 < f64_exp y" using lt f64_exp_ge[of x] by linarith
    then have "round_half_even (of_int (2 ^ 52)) \<le> round_half_even (y / 2 powi f64_exp y)"
      using scaled_lower[OF y] by (intro round_half_even_mono) simp
    then have "(of_int (2 ^ 52) :: rat) \<le> of_int (round_half_even (y / 2 powi f64_exp y))"
      by (simp only: of_int_le_iff round_half_even_int)
    with y show ?thesis by (simp add: fl_def)
  qed
  finally show ?thesis .
qed

lemma fl_mono [f64]: "x \<le> y \<Longrightarrow> fl x \<le> fl y"
proof -
  assume le: "x \<le> y"
  consider "0 < x" | "x \<le> 0" "0 \<le> y" | "y < 0" using le by linarith
  then show ?thesis
  proof cases
    case 2
    then have "0 \<le> fl (- x)" "0 \<le> fl y" by (simp_all add: fl_nonneg)
    then show ?thesis by (simp add: fl_uminus)
  next
    case 3
    with le have "fl (- y) \<le> fl (- x)" by (intro fl_mono_pos) auto
    then show ?thesis by (simp add: fl_uminus)
  qed (use le fl_mono_pos in auto)
qed

text \<open>The rounding error: half a unit in the last place.\<close>

lemma fl_error_exp: "\<bar>fl x - x\<bar> \<le> 2 powi (f64_exp x - 1)"
proof (cases "x = 0")
  case False
  let ?p = "2 powi f64_exp x :: rat"
  have "fl x - x = (of_int (round_half_even (x / ?p)) - x / ?p) * ?p"
    using False by (simp add: fl_def algebra_simps)
  then have "\<bar>fl x - x\<bar> = \<bar>of_int (round_half_even (x / ?p)) - x / ?p\<bar> * ?p"
    by (simp add: abs_mult)
  also have "\<dots> \<le> 1 / 2 * ?p"
    by (intro mult_right_mono round_half_even_error) auto
  also have "\<dots> = 2 powi (f64_exp x - 1)" by (simp add: power_int_diff)
  finally show ?thesis .
qed simp

definition f64_eps :: rat where "f64_eps = 1 / 2 ^ 53"
definition f64_tiny :: rat where "f64_tiny = 2 powi (- 1075)"

lemma fl_error [f64]: "\<bar>fl x - x\<bar> \<le> f64_eps * \<bar>x\<bar> + f64_tiny"
proof (cases "x = 0 \<or> f64_exp x = - 1074")
  case True
  then show ?thesis
    using fl_error_exp[of x] by (auto simp: f64_eps_def f64_tiny_def add_increasing)
next
  case False
  then have x: "0 < \<bar>x\<bar>" and e: "f64_exp x = ilog2 \<bar>x\<bar> - 52"
    by (auto simp: f64_exp_def max_def split: if_splits)
  have "2 powi (f64_exp x - 1) = (2::rat) powi ilog2 \<bar>x\<bar> * f64_eps"
    by (simp add: e f64_eps_def power_int_diff)
  also have "\<dots> \<le> \<bar>x\<bar> * f64_eps"
    using ilog2_bounds[OF x] by (intro mult_right_mono) (auto simp: f64_eps_def)
  finally have "2 powi (f64_exp x - 1) \<le> f64_eps * \<bar>x\<bar>" by (simp add: mult.commute)
  moreover have "0 \<le> f64_tiny" by (simp add: f64_tiny_def)
  ultimately show ?thesis using fl_error_exp[of x] by linarith
qed


text \<open>Taking whole tokens out of a bucket is exact: the difference needs no more bits.\<close>

lemma fl_diff_int [f64]:
  assumes x: "fl x = x" "x \<le> 2 ^ 53" and g: "0 \<le> g" "of_int g \<le> x"
  shows "fl (x - of_int g) = x - of_int g"
proof -
  obtain m e where m: "x = of_int m * 2 powi e" "\<bar>m\<bar> \<le> 2 ^ 53" "- 1074 \<le> e"
    using fl_shape[of x] x(1) by auto
  have x0: "0 \<le> x" using g by (meson of_int_0_le_iff order_trans)
  show ?thesis
  proof (cases "0 \<le> e")
    case True
    define k where "k = m * 2 ^ nat e - g"
    from True m(1) have k: "x - of_int g = of_int k" by (simp add: k_def power_int_def)
    have "0 \<le> (of_int k :: rat)" "(of_int k :: rat) \<le> of_int (2 ^ 53)"
      using g x(2) x0 by (simp_all flip: k)
    then have "\<bar>k\<bar> \<le> 2 ^ 53" by (simp only: of_int_le_iff of_int_0_le_iff)
    then show ?thesis unfolding k by (rule fl_of_int)
  next
    case False
    define k where "k = m - g * 2 ^ nat (- e)"
    have p: "(2::rat) powi e * 2 ^ nat (- e) = 1"
      using False by (simp add: power_int_def field_simps)
    have k: "x - of_int g = of_int k * 2 powi e"
      using p by (simp add: k_def m(1) algebra_simps)
    have "0 \<le> of_int k * (2::rat) powi e" "of_int k * (2::rat) powi e \<le> of_int m * 2 powi e"
      using g by (simp_all flip: k m(1))
    moreover have "0 < (2::rat) powi e" by simp
    ultimately have "0 \<le> k" "k \<le> m"
      by (simp_all add: zero_le_mult_iff)
    with m(2) have "\<bar>k\<bar> \<le> 2 ^ 53" by linarith
    then show ?thesis unfolding k using m(3) by (rule fl_dyadic)
  qed
qed

section \<open>The laws the arithmetic relies on\<close>

locale rounding =
  fixes rnd :: "rat \<Rightarrow> rat" and eps tiny :: rat
  assumes rnd_mono: "x \<le> y \<Longrightarrow> rnd x \<le> rnd y"
    and rnd_idem: "rnd (rnd x) = rnd x"
    and rnd_zero: "rnd 0 = 0"
    and rnd_error: "\<bar>rnd x - x\<bar> \<le> eps * \<bar>x\<bar> + tiny"
    and eps_pos: "0 < eps" and tiny_pos: "0 < tiny"
begin

lemma rnd_nonneg: "0 \<le> x \<Longrightarrow> 0 \<le> rnd x"
  using rnd_mono[of 0 x] by (simp add: rnd_zero)

lemma rnd_le: "x \<le> y \<Longrightarrow> rnd y = y \<Longrightarrow> rnd x \<le> y"
  using rnd_mono[of x y] by simp

lemma rnd_ge: "x \<le> y \<Longrightarrow> rnd x = x \<Longrightarrow> x \<le> rnd y"
  using rnd_mono[of x y] by simp

lemma rnd_upper: "0 \<le> x \<Longrightarrow> rnd x \<le> x * (1 + eps) + tiny"
  using rnd_error[of x] by (simp add: algebra_simps abs_le_iff)

lemma rnd_lower: "0 \<le> x \<Longrightarrow> x * (1 - eps) - tiny \<le> rnd x"
  using rnd_error[of x] by (simp add: algebra_simps abs_le_iff)

lemma rnd_min: "rnd c = c \<Longrightarrow> rnd (min (rnd x) c) = min (rnd x) c"
  by (simp add: min_def rnd_idem)

text \<open>
  A rounded sum that is then capped exceeds the exact sum by at most the error at the cap.
\<close>

lemma rnd_capped:
  assumes x: "0 \<le> x" and c: "rnd c = c" "0 \<le> c"
  shows "min (rnd x) c \<le> x + (eps * c + tiny)"
proof (cases "x \<le> c")
  case True
  have "rnd x \<le> x + (eps * x + tiny)" using rnd_upper[OF x] by (simp add: algebra_simps)
  also have "\<dots> \<le> x + (eps * c + tiny)"
    using True eps_pos by simp
  finally show ?thesis by simp
next
  case False
  then have "min (rnd x) c \<le> x" by simp
  also have "\<dots> \<le> x + (eps * c + tiny)" using eps_pos tiny_pos c by simp
  finally show ?thesis .
qed

end

interpretation F: rounding fl f64_eps f64_tiny
proof
  show "0 < f64_eps" "0 < f64_tiny" by (simp_all add: f64_eps_def f64_tiny_def)
qed (simp_all add: fl_mono fl_error)

section \<open>Durations as seconds\<close>

text \<open>
  \<^verbatim>\<open>time.Duration.Seconds\<close>: whole seconds and the remaining nanoseconds are converted
  separately and added.
\<close>

definition Seconds :: "duration \<Rightarrow> rat" where
  "Seconds d = fl (fl (of_int (go_div d Second)) + fl (fl (of_int (go_mod d Second)) / 10 ^ 9))"

lemma Seconds_units [simp]: "Seconds Second = 1" "Seconds Minute = 60"
proof -
  have "fl 1 = 1" "fl 60 = 60" using fl_of_int[of 1] fl_of_int[of 60] by simp_all
  then show "Seconds Second = 1" "Seconds Minute = 60"
    by (simp_all add: Seconds_def Second_def Minute_def)
qed

lemma Seconds_nonneg: "0 \<le> d \<Longrightarrow> 0 \<le> Seconds d"
  unfolding Seconds_def
  by (intro fl_nonneg add_nonneg_nonneg divide_nonneg_nonneg) (simp_all add: pos_imp_zdiv_nonneg_iff)

lemma Seconds_0 [simp]: "Seconds 0 = 0"
  by (simp add: Seconds_def)

section \<open>Conversions to integers\<close>

text \<open>
  Go's conversion of a float64 to an integer truncates towards zero. The result for a
  value outside the range of the type, or for NaN, is implementation-specific; \<open>cvt\<close>
  stands for what the platform returns then.
\<close>

definition truncr :: "rat \<Rightarrow> int" where
  "truncr x = (if 0 \<le> x then \<lfloor>x\<rfloor> else \<lceil>x\<rceil>)"

lemma truncr_bounds: "0 \<le> x \<Longrightarrow> 0 \<le> truncr x \<and> of_int (truncr x) \<le> x"
  by (simp add: truncr_def)

lemma truncr_of_int [simp]: "truncr (of_int n) = n"
  by (simp add: truncr_def)

datatype f64 = Fin rat | PInf | NInf | NaN

definition f64_norm :: "rat \<Rightarrow> f64" where
  "f64_norm x =
     (let y = fl x in if 2 ^ 1024 \<le> y then PInf else if y \<le> - (2 ^ 1024) then NInf else Fin y)"

fun f64_le :: "f64 \<Rightarrow> f64 \<Rightarrow> bool" where
  "f64_le NaN _ = False"
| "f64_le _ NaN = False"
| "f64_le NInf _ = True"
| "f64_le _ PInf = True"
| "f64_le (Fin x) (Fin y) = (x \<le> y)"
| "f64_le _ _ = False"

fun f64_lt :: "f64 \<Rightarrow> f64 \<Rightarrow> bool" where
  "f64_lt NaN _ = False"
| "f64_lt _ NaN = False"
| "f64_lt (Fin x) (Fin y) = (x < y)"
| "f64_lt NInf y = (y \<noteq> NInf)"
| "f64_lt x PInf = (x \<noteq> PInf)"
| "f64_lt _ _ = False"

fun f64_sgn :: "f64 \<Rightarrow> int" where
  "f64_sgn (Fin x) = (if 0 < x then 1 else if x < 0 then - 1 else 0)"
| "f64_sgn PInf = 1"
| "f64_sgn NInf = - 1"
| "f64_sgn NaN = 0"

fun f64_mul :: "f64 \<Rightarrow> f64 \<Rightarrow> f64" where
  "f64_mul (Fin x) (Fin y) = f64_norm (x * y)"
| "f64_mul NaN _ = NaN"
| "f64_mul _ NaN = NaN"
| "f64_mul x y =
     (let s = f64_sgn x * f64_sgn y in if s = 0 then NaN else if 0 < s then PInf else NInf)"

definition int64_of_f64 :: "(f64 \<Rightarrow> int) \<Rightarrow> f64 \<Rightarrow> int" where
  "int64_of_f64 cvt x =
     (case x of Fin r \<Rightarrow> if int64_range (truncr r) then truncr r else cvt x | _ \<Rightarrow> cvt x)"

lemma int64_of_f64_pos:
  assumes "0 \<le> x" "x < 2 ^ 63"
  shows "int64_of_f64 cvt (Fin x) = \<lfloor>x\<rfloor>"
proof -
  have "\<lfloor>x\<rfloor> < 2 ^ 63" using assms(2) by (simp add: floor_less_iff)
  moreover have "0 \<le> \<lfloor>x\<rfloor>" using assms(1) by simp
  ultimately show ?thesis using assms(1) by (simp add: int64_of_f64_def int64_range_def truncr_def)
qed

lemma f64_norm_small: "\<bar>fl x\<bar> < 2 ^ 1024 \<Longrightarrow> f64_norm x = Fin (fl x)"
  unfolding f64_norm_def Let_def abs_less_iff by (metis less_le_not_le minus_less_iff)

end
