(* ===== verification/Token_Bucket.thy ===== *)
theory Token_Bucket
  imports Float64
begin

text \<open>
  The in-process token bucket of \<^verbatim>\<open>ratelimiter.go\<close> and the contract every bucket of the
  limiter keeps. \<open>token_bucket\<close> is that contract as a locale: grants stay between zero
  and the request, a step charges exactly what it grants, and what the balance gains is
  bounded by the refill rate; the bound on everything a bucket ever grants is proved there
  once. \<^verbatim>\<open>TokenBucket\<close> (here) and the bucket of the Redis script are its two instances.
  Clock readings are arguments: \<open>now\<close> is the value of the \<^verbatim>\<open>time.Now()\<close> of the call.
\<close>

section \<open>The contract of a bucket\<close>

fun granted_run :: "(gotime \<Rightarrow> int \<Rightarrow> 'b \<Rightarrow> int \<times> 'b) \<Rightarrow> (gotime \<times> int) list \<Rightarrow> 'b \<Rightarrow> int \<times> 'b" where
  "granted_run draw [] b = (0, b)"
| "granted_run draw ((t, n) # calls) b =
     (let (g, b') = draw t n b; (total, b'') = granted_run draw calls b' in (g + total, b''))"

fun clock_ok :: "gotime \<Rightarrow> (gotime \<times> int) list \<Rightarrow> bool" where
  "clock_ok t0 [] = True"
| "clock_ok t0 ((t, n) # calls) = (t0 \<le> t \<and> clock_ok t calls)"

definition last_call :: "gotime \<Rightarrow> (gotime \<times> int) list \<Rightarrow> gotime" where
  "last_call t0 calls = (if calls = [] then t0 else fst (last calls))"

lemma last_call_Cons [simp]: "last_call t0 ((t, n) # calls) = last_call t calls"
  by (simp add: last_call_def)

lemma clock_ok_last: "clock_ok t0 calls \<Longrightarrow> 0 \<le> last_call t0 calls - t0"
  by (induction t0 calls rule: clock_ok.induct) (simp add: last_call_def, force)

locale token_bucket =
  fixes inv :: "'b \<Rightarrow> bool"
    and balance :: "'b \<Rightarrow> rat"
    and stamp :: "'b \<Rightarrow> gotime"
    and rate slack :: "'b \<Rightarrow> rat"
    and draw :: "gotime \<Rightarrow> int \<Rightarrow> 'b \<Rightarrow> int \<times> 'b"
  assumes draw_inv: "inv b \<Longrightarrow> stamp b \<le> t \<Longrightarrow> inv (snd (draw t n b))"
    and draw_range: "inv b \<Longrightarrow> stamp b \<le> t \<Longrightarrow> 0 \<le> fst (draw t n b) \<and> fst (draw t n b) \<le> max 0 n"
    and draw_stamp: "stamp b \<le> t \<Longrightarrow> stamp b \<le> stamp (snd (draw t n b)) \<and> stamp (snd (draw t n b)) \<le> t"
    and draw_params: "rate (snd (draw t n b)) = rate b" "slack (snd (draw t n b)) = slack b"
    and draw_charge: "inv b \<Longrightarrow> stamp b \<le> t \<Longrightarrow>
      of_int (fst (draw t n b)) + balance (snd (draw t n b))
        \<le> balance b + rate b * of_int (stamp (snd (draw t n b)) - stamp b) + slack b"
    and balance_nonneg: "inv b \<Longrightarrow> 0 \<le> balance b"
    and rate_nonneg: "inv b \<Longrightarrow> 0 \<le> rate b"
    and slack_nonneg: "inv b \<Longrightarrow> 0 \<le> slack b"
begin

lemma run_inv: "inv b \<Longrightarrow> clock_ok t0 calls \<Longrightarrow> stamp b \<le> t0 \<Longrightarrow> inv (snd (granted_run draw calls b))"
proof (induction calls arbitrary: b t0)
  case (Cons c calls)
  obtain t n where c: "c = (t, n)" by force
  with Cons.prems have t: "stamp b \<le> t" by simp
  then have "inv (snd (draw t n b))" "stamp (snd (draw t n b)) \<le> t"
    using Cons.prems t draw_stamp[of b t n] by (simp_all add: draw_inv)
  with Cons.IH[of "snd (draw t n b)" t] Cons.prems show ?case
    by (simp add: c split_beta Let_def)
qed simp

text \<open>
  The defining property of a token bucket, for any schedule of calls: everything granted is
  covered by the initial balance, the refill over the elapsed time and the rounding slack.
\<close>

lemma run_bound:
  assumes "inv b" "clock_ok t0 calls" "stamp b \<le> t0"
  shows "of_int (fst (granted_run draw calls b)) + balance (snd (granted_run draw calls b))
      \<le> balance b + rate b * of_int (stamp (snd (granted_run draw calls b)) - stamp b)
        + of_nat (length calls) * slack b
    \<and> stamp (snd (granted_run draw calls b)) \<le> last_call t0 calls"
  using assms
proof (induction calls arbitrary: b t0)
  case Nil
  then show ?case by (simp add: last_call_def)
next
  case (Cons c calls)
  obtain t n where c: "c = (t, n)" by force
  define b' where "b' = snd (draw t n b)"
  let ?r = "granted_run draw calls b'"
  have t: "stamp b \<le> t" "clock_ok t calls" using Cons.prems by (auto simp: c)
  have b': "inv b'" "stamp b' \<le> t" "rate b' = rate b" "slack b' = slack b"
    using Cons.prems t draw_stamp[of b t n] by (simp_all add: b'_def draw_inv draw_params)
  have "of_int (fst (draw t n b)) + balance b'
      \<le> balance b + rate b * of_int (stamp b' - stamp b) + slack b"
    using draw_charge[OF Cons.prems(1) t(1), of n] by (simp add: b'_def)
  moreover have "of_int (fst ?r) + balance (snd ?r)
      \<le> balance b' + rate b * of_int (stamp (snd ?r) - stamp b') + of_nat (length calls) * slack b"
    and "stamp (snd ?r) \<le> last_call t calls"
    using Cons.IH[OF b'(1) t(2) b'(2)] b' by simp_all
  ultimately show ?case
    by (simp add: c split_beta Let_def algebra_simps flip: b'_def)
qed

lemma run_total:
  assumes "inv b" "clock_ok t0 calls" "stamp b \<le> t0"
  shows "of_int (fst (granted_run draw calls b))
      \<le> balance b + rate b * of_int (last_call t0 calls - stamp b) + of_nat (length calls) * slack b"
proof -
  let ?r = "granted_run draw calls b"
  have "0 \<le> balance (snd ?r)" using run_inv[OF assms] balance_nonneg by blast
  moreover have "rate b * of_int (stamp (snd ?r) - stamp b) \<le> rate b * of_int (last_call t0 calls - stamp b)"
    using run_bound[OF assms] rate_nonneg[OF assms(1)] by (intro mult_left_mono) auto
  ultimately show ?thesis using run_bound[OF assms] by linarith
qed

end

section \<open>TokenBucket\<close>

record TokenBucket =
  tokens :: rat
  maxTokens :: rat
  refillRate :: rat
  lastRefillTime :: gotime

definition NewTokenBucket :: "int \<Rightarrow> duration \<Rightarrow> gotime \<Rightarrow> TokenBucket" where
  "NewTokenBucket limit period now =
     \<lparr>tokens = fl (of_int limit), maxTokens = fl (of_int limit),
      refillRate = fl (fl (of_int limit) / Seconds period), lastRefillTime = now\<rparr>"

definition refillLocked :: "gotime \<Rightarrow> TokenBucket \<Rightarrow> TokenBucket" where
  "refillLocked now tb =
     (let elapsed = Seconds (timeSub now (lastRefillTime tb));
          t = fl (tokens tb + fl (elapsed * refillRate tb))
      in tb\<lparr>tokens := (if maxTokens tb < t then maxTokens tb else t), lastRefillTime := now\<rparr>)"

definition AllowN :: "gotime \<Rightarrow> int \<Rightarrow> TokenBucket \<Rightarrow> bool \<times> TokenBucket" where
  "AllowN now n tb =
     (if n \<le> 0 then (True, tb)
      else let tb' = refillLocked now tb; requiredTokens = fl (of_int n)
           in if requiredTokens \<le> tokens tb'
              then (True, tb'\<lparr>tokens := fl (tokens tb' - requiredTokens)\<rparr>)
              else (False, tb'))"

definition Allow :: "gotime \<Rightarrow> TokenBucket \<Rightarrow> bool \<times> TokenBucket" where
  "Allow now tb = AllowN now 1 tb"

definition AllowUpToN :: "gotime \<Rightarrow> int \<Rightarrow> TokenBucket \<Rightarrow> int \<times> TokenBucket" where
  "AllowUpToN now n tb =
     (if n \<le> 0 then (0, tb)
      else let tb' = refillLocked now tb
           in if fl (of_int n) \<le> tokens tb'
              then (n, tb'\<lparr>tokens := fl (tokens tb' - fl (of_int n))\<rparr>)
              else let granted = truncr (tokens tb')
                   in if granted \<le> 0 then (0, tb')
                      else (granted, tb'\<lparr>tokens := fl (tokens tb' - fl (of_int granted))\<rparr>))"

definition Refund :: "int \<Rightarrow> TokenBucket \<Rightarrow> TokenBucket" where
  "Refund n tb =
     (if n \<le> 0 then tb
      else let t = fl (tokens tb + fl (of_int n))
           in tb\<lparr>tokens := (if maxTokens tb < t then maxTokens tb else t)\<rparr>)"

text \<open>
  The invariant: the balance is a float64 between zero and the capacity, and the capacity
  is a limit whose whole tokens float64 counts exactly (below \<open>2^53\<close>).
\<close>

definition tb_inv :: "TokenBucket \<Rightarrow> bool" where
  "tb_inv tb \<longleftrightarrow> 0 \<le> tokens tb \<and> tokens tb \<le> maxTokens tb \<and> maxTokens tb < 2 ^ 53
     \<and> fl (tokens tb) = tokens tb \<and> fl (maxTokens tb) = maxTokens tb \<and> 0 \<le> refillRate tb"

definition limit_ok :: "int \<Rightarrow> bool" where
  "limit_ok limit \<longleftrightarrow> 0 \<le> limit \<and> limit < 2 ^ 53"

lemma NewTokenBucket_inv [bucket]:
  assumes "limit_ok limit" "0 \<le> period"
  shows "tb_inv (NewTokenBucket limit period now)"
proof -
  have "fl (of_int limit) = of_int limit"
    using assms by (intro fl_of_int) (simp add: limit_ok_def)
  moreover have "(of_int limit :: rat) < of_int (2 ^ 53)"
    using assms by (simp only: of_int_less_iff limit_ok_def)
  ultimately show ?thesis
    using assms Seconds_nonneg[of period]
    by (simp add: tb_inv_def NewTokenBucket_def limit_ok_def fl_nonneg)
qed

lemma refillLocked_simps [simp]:
  "maxTokens (refillLocked now tb) = maxTokens tb"
  "refillRate (refillLocked now tb) = refillRate tb"
  "lastRefillTime (refillLocked now tb) = now"
  by (simp_all add: refillLocked_def Let_def)

lemma tokens_refillLocked:
  "tokens (refillLocked now tb) =
     min (fl (tokens tb + fl (Seconds (timeSub now (lastRefillTime tb)) * refillRate tb))) (maxTokens tb)"
  by (simp add: refillLocked_def Let_def)

text \<open>A refill never loses tokens and never overfills.\<close>

lemma refillLocked_inv [bucket]:
  assumes "tb_inv tb" "lastRefillTime tb \<le> now"
  shows "tb_inv (refillLocked now tb)" "tokens tb \<le> tokens (refillLocked now tb)"
proof -
  let ?r = "fl (Seconds (timeSub now (lastRefillTime tb)) * refillRate tb)"
  have r: "0 \<le> ?r"
    using assms by (intro fl_nonneg mult_nonneg_nonneg Seconds_nonneg timeSub_nonneg) (auto simp: tb_inv_def)
  have "tokens tb \<le> fl (tokens tb + ?r)"
    using assms r by (intro F.rnd_ge) (auto simp: tb_inv_def)
  with assms show "tokens tb \<le> tokens (refillLocked now tb)"
    by (simp add: tokens_refillLocked tb_inv_def)
  with assms show "tb_inv (refillLocked now tb)"
    by (auto simp: tb_inv_def tokens_refillLocked F.rnd_min)
qed


text \<open>
  What a successful comparison with \<^verbatim>\<open>float64(n)\<close> means: below \<open>2^53\<close> the conversion is
  exact, so the bucket really holds \<open>n\<close> tokens.
\<close>

lemma float_of_int_le:
  assumes "0 < n" "fl (of_int n) \<le> x" "x < 2 ^ 53"
  shows "fl (of_int n) = of_int n"
proof (rule ccontr)
  assume *: "fl (of_int n) \<noteq> of_int n"
  then have "2 ^ 53 \<le> n" using fl_of_int[of n] assms(1) by linarith
  then have "fl (of_int (2 ^ 53)) \<le> fl (of_int n)"
    by (intro fl_mono) (simp only: of_int_le_iff)
  moreover have "fl (of_int (2 ^ 53)) = of_int (2 ^ 53)" by (rule fl_of_int) simp
  ultimately show False using assms(2,3) by simp
qed

lemma AllowUpToN_cases:
  assumes inv: "tb_inv tb" and now: "lastRefillTime tb \<le> now" and n: "0 < n"
  defines "tb' \<equiv> refillLocked now tb"
  obtains g where "AllowUpToN now n tb = (g, tb'\<lparr>tokens := tokens tb' - of_int g\<rparr>)"
    "0 \<le> g" "g \<le> n" "of_int g \<le> tokens tb'" "g = min n \<lfloor>tokens tb'\<rfloor>"
proof -
  have tb': "tb_inv tb'" unfolding tb'_def using inv now by (rule refillLocked_inv)
  then have lt: "0 \<le> tokens tb'" "tokens tb' < 2 ^ 53" by (auto simp: tb_inv_def)
  have sub: "fl (tokens tb' - of_int g) = tokens tb' - of_int g" if "0 \<le> g" "of_int g \<le> tokens tb'" for g
    using tb' that by (intro fl_diff_int) (auto simp: tb_inv_def)
  show ?thesis
  proof (cases "fl (of_int n) \<le> tokens tb'")
    case True
    then have "fl (of_int n) = of_int n" using float_of_int_le[OF n True lt(2)] by simp
    with True n show ?thesis
      by (intro that[of n])
        (auto simp: AllowUpToN_def Let_def sub le_floor_iff simp flip: tb'_def)
  next
    case False
    define g where "g = truncr (tokens tb')"
    have g: "0 \<le> g" "of_int g \<le> tokens tb'" "g = \<lfloor>tokens tb'\<rfloor>"
      using truncr_bounds[OF lt(1)] lt(1) by (auto simp: g_def truncr_def)
    have "g < 2 ^ 53" using g(2) lt(2) by (metis of_int_less_iff of_int_numeral of_int_power order_le_less_trans)
    with g(1) have flg: "fl (of_int g) = of_int g" by (intro fl_of_int) simp
    have "g \<le> n"
    proof (rule ccontr)
      assume "\<not> g \<le> n"
      with n have "fl (of_int n) \<le> fl (of_int g)" by (intro fl_mono) simp
      with False g(2) flg show False by simp
    qed
    moreover have "AllowUpToN now n tb = (g, tb'\<lparr>tokens := tokens tb' - of_int g\<rparr>)"
    proof (cases "g \<le> 0")
      case True
      with g(1) have "g = 0" by simp
      with n False show ?thesis by (simp add: AllowUpToN_def Let_def flip: tb'_def g_def)
    next
      case False': False
      with n False show ?thesis
        by (simp add: AllowUpToN_def Let_def flg sub[OF g(1,2)] flip: tb'_def g_def)
    qed
    ultimately show ?thesis using g by (intro that[of g]) auto
  qed
qed

lemma AllowUpToN_nonpos [simp]: "n \<le> 0 \<Longrightarrow> AllowUpToN now n tb = (0, tb)"
  by (simp add: AllowUpToN_def)

lemma tb_inv_take: "tb_inv tb \<Longrightarrow> 0 \<le> g \<Longrightarrow> of_int g \<le> tokens tb \<Longrightarrow> tb_inv (tb\<lparr>tokens := tokens tb - of_int g\<rparr>)"
  by (auto simp: tb_inv_def fl_diff_int)

lemma AllowUpToN_inv [bucket]:
  assumes "tb_inv tb" "lastRefillTime tb \<le> now"
  shows "tb_inv (snd (AllowUpToN now n tb))"
proof (cases "0 < n")
  case True
  with assms show ?thesis
    by (rule AllowUpToN_cases) (simp add: tb_inv_take refillLocked_inv assms)
qed (simp add: assms)

lemma AllowUpToN_range [bucket]:
  assumes "tb_inv tb" "lastRefillTime tb \<le> now"
  shows "0 \<le> fst (AllowUpToN now n tb) \<and> fst (AllowUpToN now n tb) \<le> max 0 n"
proof (cases "0 < n")
  case True
  with assms show ?thesis by (rule AllowUpToN_cases) simp
qed simp

lemma AllowUpToN_params [simp]:
  "maxTokens (snd (AllowUpToN now n tb)) = maxTokens tb"
  "refillRate (snd (AllowUpToN now n tb)) = refillRate tb"
  "lastRefillTime (snd (AllowUpToN now n tb)) = (if 0 < n then now else lastRefillTime tb)"
  by (simp_all add: AllowUpToN_def Let_def)

lemma Refund_inv [bucket]:
  assumes "tb_inv tb" shows "tb_inv (Refund n tb)"
proof (cases "0 < n")
  case True
  have "0 \<le> fl (tokens tb + fl (of_int n))"
    using assms True by (intro fl_nonneg add_nonneg_nonneg) (auto simp: tb_inv_def fl_nonneg)
  with assms True show ?thesis by (auto simp: tb_inv_def Refund_def Let_def)
qed (simp add: assms Refund_def)

lemma Refund_params [simp]:
  "maxTokens (Refund n tb) = maxTokens tb" "refillRate (Refund n tb) = refillRate tb"
  "lastRefillTime (Refund n tb) = lastRefillTime tb"
  by (simp_all add: Refund_def Let_def)

text \<open>Refunding what was just taken restores the balance exactly, float64 or not.\<close>

lemma Refund_take:
  assumes "tb_inv tb" "0 \<le> g" "of_int g \<le> tokens tb"
  shows "Refund g (tb\<lparr>tokens := tokens tb - of_int g\<rparr>) = tb"
proof -
  have "g < 2 ^ 53"
    using assms by (metis tb_inv_def of_int_less_iff of_int_numeral of_int_power order_le_less_trans)
  with assms(2) have "fl (of_int g) = of_int g" by (intro fl_of_int) simp
  with assms show ?thesis by (cases "g = 0") (auto simp: Refund_def Let_def tb_inv_def)
qed


section \<open>The bucket keeps the contract\<close>

lemma Seconds_upper:
  assumes "0 \<le> d"
  shows "Seconds d \<le> of_int d / 10 ^ 9 * (1 + f64_eps) ^ 3 + 9 * f64_tiny"
proof -
  define s where "s = (of_int (d div Second) :: rat)"
  define n where "n = (of_int (d mod Second) :: rat)"
  define u where "u = n / 10 ^ 9"
  define q where "q = 1 + f64_eps"
  define t where "t = f64_tiny"
  have nonneg: "0 \<le> s" "0 \<le> n" "0 \<le> u"
    using assms by (auto simp: s_def n_def u_def pos_imp_zdiv_nonneg_iff)
  have q: "1 \<le> q" "q \<le> 2" and t: "0 \<le> t"
    using F.eps_pos F.tiny_pos by (auto simp: q_def t_def f64_eps_def)
  have "d = 10 ^ 9 * (d div Second) + d mod Second" by (simp add: Second_def)
  then have "of_int d = (of_int (10 ^ 9 * (d div Second) + d mod Second) :: rat)" by (rule arg_cong)
  then have "of_int d = 10 ^ 9 * s + n"
    by (simp only: s_def n_def of_int_add of_int_mult of_int_power of_int_numeral)
  then have d: "of_int d / 10 ^ 9 = s + u" by (simp add: u_def field_simps)
  have "fl n / 10 ^ 9 \<le> u * q + t"
    using F.rnd_upper[OF nonneg(2)] t by (simp add: u_def q_def t_def field_simps)
  then have "fl n / 10 ^ 9 * q \<le> (u * q + t) * q" using q by (intro mult_right_mono) auto
  then have "fl (fl n / 10 ^ 9) \<le> (u * q + t) * q + t"
    using F.rnd_upper[of "fl n / 10 ^ 9"] fl_nonneg[OF nonneg(2)] by (simp add: q_def t_def)
  moreover have "fl s \<le> s * q + t" using F.rnd_upper[OF nonneg(1)] by (simp add: q_def t_def)
  ultimately have sum: "fl s + fl (fl n / 10 ^ 9) \<le> s * q + u * q ^ 2 + 4 * t"
    using mult_left_mono[OF q(2) t] by (simp add: power2_eq_square algebra_simps)
  have "Seconds d = fl (fl s + fl (fl n / 10 ^ 9))"
    using assms by (simp add: Seconds_def s_def n_def)
  also have "\<dots> \<le> (fl s + fl (fl n / 10 ^ 9)) * q + t"
    unfolding q_def t_def
    by (intro F.rnd_upper add_nonneg_nonneg fl_nonneg divide_nonneg_nonneg) (simp_all add: nonneg)
  also have "\<dots> \<le> (s * q + u * q ^ 2 + 4 * t) * q + t"
    using sum q by (intro add_right_mono mult_right_mono) auto
  also have "\<dots> \<le> (s + u) * q ^ 3 + 9 * t"
  proof -
    have "s * q * q * 1 \<le> s * q * q * q" using nonneg(1) q by (intro mult_left_mono) auto
    moreover have "4 * t * q \<le> 8 * t" using mult_left_mono[OF q(2), of "4 * t"] t by simp
    ultimately show ?thesis by (simp add: algebra_simps power3_eq_cube power2_eq_square)
  qed
  finally show ?thesis unfolding d q_def t_def .
qed

text \<open>
  The rate of the contract, in tokens per nanosecond, and its slack per call: the refill rate
  and the capacity, each widened by the rounding of the four operations a refill performs.
\<close>

definition tb_rate :: "TokenBucket \<Rightarrow> rat" where
  "tb_rate tb = refillRate tb / 10 ^ 9 * (1 + f64_eps) ^ 4"

definition tb_slack :: "TokenBucket \<Rightarrow> rat" where
  "tb_slack tb = f64_eps * maxTokens tb + (18 * refillRate tb + 2) * f64_tiny"

lemma refill_gain:
  assumes inv: "tb_inv tb" and now: "lastRefillTime tb \<le> now"
  shows "tokens (refillLocked now tb)
    \<le> tokens tb + tb_rate tb * of_int (now - lastRefillTime tb) + tb_slack tb"
proof -
  define d where "d = timeSub now (lastRefillTime tb)"
  define E where "E = Seconds d"
  define r where "r = refillRate tb"
  have d: "0 \<le> d" "d \<le> now - lastRefillTime tb" and r: "0 \<le> r"
    using now inv by (auto simp: d_def r_def tb_inv_def timeSub_nonneg timeSub_le)
  have E: "0 \<le> E" using d(1) by (simp add: E_def Seconds_nonneg)
  let ?q = "1 + f64_eps"
  have q: "1 \<le> ?q" "?q \<le> 2" using F.eps_pos by (auto simp: f64_eps_def)
  have "E * r * ?q \<le> (of_int d / 10 ^ 9 * ?q ^ 3 + 9 * f64_tiny) * r * ?q"
    using Seconds_upper[OF d(1)] r q by (intro mult_right_mono) (auto simp: E_def)
  also have "\<dots> = tb_rate tb * of_int d + 9 * (f64_tiny * r) * ?q"
    by (simp add: tb_rate_def r_def eval_nat_numeral algebra_simps)
  also have "9 * (f64_tiny * r) * ?q \<le> 9 * (f64_tiny * r) * 2"
    using q r F.tiny_pos by (intro mult_left_mono) auto
  finally have "fl (E * r) \<le> tb_rate tb * of_int d + 18 * (f64_tiny * r) + f64_tiny"
    using F.rnd_upper[of "E * r"] E r by simp
  moreover have "tokens (refillLocked now tb)
      \<le> tokens tb + fl (E * r) + (f64_eps * maxTokens tb + f64_tiny)"
    unfolding tokens_refillLocked E_def d_def r_def
    using inv fl_nonneg[of "E * r"] E r
    by (intro F.rnd_capped) (auto simp: tb_inv_def E_def d_def r_def)
  moreover have "0 \<le> f64_tiny * r" using r F.tiny_pos by simp
  moreover have "tb_rate tb * of_int d \<le> tb_rate tb * of_int (now - lastRefillTime tb)"
    using d(2) r F.eps_pos by (intro mult_left_mono) (simp_all add: tb_rate_def r_def del: of_int_diff)
  ultimately show ?thesis
    by (simp add: tb_slack_def r_def algebra_simps)
qed

interpretation tb: token_bucket tb_inv tokens lastRefillTime tb_rate tb_slack AllowUpToN
proof
  fix b :: TokenBucket and t :: gotime and n :: int
  assume b: "tb_inv b"
  then show "0 \<le> tokens b" "0 \<le> tb_rate b" "0 \<le> tb_slack b"
    using F.eps_pos F.tiny_pos by (auto simp: tb_inv_def tb_rate_def tb_slack_def)
  assume t: "lastRefillTime b \<le> t"
  show "tb_inv (snd (AllowUpToN t n b))"
    "0 \<le> fst (AllowUpToN t n b) \<and> fst (AllowUpToN t n b) \<le> max 0 n"
    using b t by (simp_all add: AllowUpToN_inv AllowUpToN_range)
  show "of_int (fst (AllowUpToN t n b)) + tokens (snd (AllowUpToN t n b))
      \<le> tokens b + tb_rate b * of_int (lastRefillTime (snd (AllowUpToN t n b)) - lastRefillTime b)
        + tb_slack b"
  proof (cases "0 < n")
    case True
    with b t show ?thesis
      by (rule AllowUpToN_cases) (use True refill_gain[OF b t] in simp)
  next
    case False
    with \<open>0 \<le> tb_slack b\<close> show ?thesis by simp
  qed
qed (simp_all add: tb_rate_def tb_slack_def)

section \<open>Properties\<close>

text \<open>The operations on concrete whole-second, whole-token inputs, for evaluation.\<close>

lemma Seconds_nanos: "Seconds 1000000000 = 1" "Seconds 0 = 0"
  using Seconds_units(1) by (simp_all add: Second_def Seconds_def)

lemmas tb_eval = NewTokenBucket_def AllowUpToN_def AllowN_def Refund_def refillLocked_def timeSub_def
  Let_def fl_numeral truncr_def Seconds_nanos

text \<open>
  C1. A new bucket never grants more than its limit plus the refill of the elapsed time, for
  any number of calls at any non-decreasing clock readings; the float64 rounding of the code
  is accounted for: a relative error on the rate and an absolute slack per call.
\<close>

theorem token_bucket_rate:
  assumes limit: "limit_ok limit" and period: "period = Second \<or> period = Minute" and clk: "clock_ok t0 calls"
  shows "of_int (fst (granted_run AllowUpToN calls (NewTokenBucket limit period t0)))
    \<le> of_int limit
      + (of_int limit / Seconds period * (1 + f64_eps) + f64_tiny) / 10 ^ 9 * (1 + f64_eps) ^ 4
          * of_int (last_call t0 calls - t0)
      + of_nat (length calls) * (f64_eps * of_int limit + (18 * of_int limit + 2) * f64_tiny)"
proof -
  define b where "b = NewTokenBucket limit period t0"
  let ?q = "1 + f64_eps" and ?L = "of_int limit :: rat"
  have fll: "fl ?L = ?L" using limit by (intro fl_of_int) (simp add: limit_ok_def)
  have S: "1 \<le> Seconds period" using period by auto
  have L: "0 \<le> ?L" using limit by (simp add: limit_ok_def)
  have b: "tb_inv b" "tokens b = ?L" "maxTokens b = ?L" "lastRefillTime b = t0" "refillRate b = fl (?L / Seconds period)"
    using limit period NewTokenBucket_inv[of limit period t0] by (auto simp: b_def NewTokenBucket_def fll)
  have "?L / Seconds period \<le> ?L" using L S by (simp add: divide_le_eq mult_le_cancel_left1)
  then have r1: "refillRate b \<le> ?L" unfolding b(5) using fll L S by (intro F.rnd_le) auto
  have r2: "refillRate b \<le> ?L / Seconds period * ?q + f64_tiny"
    unfolding b(5) using L S by (intro F.rnd_upper) simp
  have q: "0 \<le> ?q ^ 4" using F.eps_pos by simp
  have "tb_rate b \<le> (?L / Seconds period * ?q + f64_tiny) / 10 ^ 9 * ?q ^ 4"
    unfolding tb_rate_def using r2 q by (intro mult_right_mono divide_right_mono) auto
  moreover have "0 \<le> last_call t0 calls - t0" using clk by (rule clock_ok_last)
  ultimately have "tb_rate b * of_int (last_call t0 calls - t0)
      \<le> (?L / Seconds period * ?q + f64_tiny) / 10 ^ 9 * ?q ^ 4 * of_int (last_call t0 calls - t0)"
    by (intro mult_right_mono) auto
  moreover have "tb_slack b \<le> f64_eps * ?L + (18 * ?L + 2) * f64_tiny"
    unfolding tb_slack_def using r1 b(3) F.tiny_pos by (intro add_mono mult_right_mono) auto
  then have "of_nat (length calls) * tb_slack b
      \<le> of_nat (length calls) * (f64_eps * ?L + (18 * ?L + 2) * f64_tiny)"
    by (intro mult_left_mono) auto
  moreover note tb.run_total[OF b(1) clk]
  ultimately show ?thesis unfolding b_def[symmetric] b(2,4) by linarith
qed

theorem token_bucket_rate_witness:
  "fst (granted_run AllowUpToN [(0, 7), (1000000000, 12)] (NewTokenBucket 10 Second 0)) = 17
   \<and> (17 :: rat) \<le> 10
      + (10 / Seconds Second * (1 + f64_eps) + f64_tiny) / 10 ^ 9 * (1 + f64_eps) ^ 4 * 1000000000
      + 2 * (f64_eps * 10 + (18 * 10 + 2) * f64_tiny)"
proof -
  have run: "fst (granted_run AllowUpToN [(0, 7), (1000000000, 12)] (NewTokenBucket 10 Second 0)) = 17"
    by (simp add: tb_eval)
  show ?thesis
    using token_bucket_rate[of 10 Second 0 "[(0, 7), (1000000000, 12)]"] run
    by (simp add: limit_ok_def last_call_def)
qed

text \<open>
  C8. A request for \<open>n\<close> tokens is granted exactly the smaller of \<open>n\<close> and the whole tokens the
  refilled bucket holds, the balance is charged exactly the grant with no rounding loss, and
  the all-or-nothing variant succeeds exactly when the partial one grants everything.
\<close>

theorem AllowUpToN_exact:
  assumes inv: "tb_inv tb" and now: "lastRefillTime tb \<le> now" and n: "0 < n"
  shows "let tb' = refillLocked now tb; g = min n \<lfloor>tokens tb'\<rfloor> in
      AllowUpToN now n tb = (g, tb'\<lparr>tokens := tokens tb' - of_int g\<rparr>)
    \<and> AllowN now n tb = (if g = n then (True, tb'\<lparr>tokens := tokens tb' - of_int n\<rparr>) else (False, tb'))"
proof -
  define tb' where "tb' = refillLocked now tb"
  have tb': "tb_inv tb'" unfolding tb'_def using inv now by (rule refillLocked_inv)
  have le: "fl (of_int n) \<le> tokens tb' \<longleftrightarrow> of_int n \<le> tokens tb'"
  proof
    assume a: "fl (of_int n) \<le> tokens tb'"
    with tb' show "of_int n \<le> tokens tb'" using float_of_int_le[OF n a] by (simp add: tb_inv_def)
  next
    assume "of_int n \<le> tokens tb'"
    then show "fl (of_int n) \<le> tokens tb'" using tb' fl_mono[of "of_int n" "tokens tb'"] by (simp add: tb_inv_def)
  qed
  obtain g where g: "AllowUpToN now n tb = (g, tb'\<lparr>tokens := tokens tb' - of_int g\<rparr>)" "g = min n \<lfloor>tokens tb'\<rfloor>"
    using inv now n unfolding tb'_def by (rule AllowUpToN_cases)
  have all: "g = n \<longleftrightarrow> of_int n \<le> tokens tb'" using g(2) by (simp add: le_floor_iff[symmetric] min_def)
  have "fl (tokens tb' - fl (of_int n)) = tokens tb' - of_int n" if "of_int n \<le> tokens tb'"
    using that tb' float_of_int_le[OF n iffD2[OF le that]] n by (simp add: fl_diff_int tb_inv_def)
  then have "AllowN now n tb = (if g = n then (True, tb'\<lparr>tokens := tokens tb' - of_int n\<rparr>) else (False, tb'))"
    using n all le by (simp add: AllowN_def Let_def flip: tb'_def)
  with g show ?thesis by (simp add: Let_def flip: tb'_def)
qed

theorem AllowUpToN_exact_witness:
  "AllowUpToN 0 12 (NewTokenBucket 10 Second 0) = (10, (NewTokenBucket 10 Second 0)\<lparr>tokens := 0\<rparr>)
   \<and> \<not> fst (AllowN 0 12 (NewTokenBucket 10 Second 0))"
proof -
  have "tb_inv (NewTokenBucket 10 Second 0)" by (rule NewTokenBucket_inv) (simp_all add: limit_ok_def)
  moreover have "refillLocked 0 (NewTokenBucket 10 Second 0) = NewTokenBucket 10 Second 0"
    "tokens (NewTokenBucket 10 Second 0) = 10"
    by (simp_all add: tb_eval)
  ultimately show ?thesis
    using AllowUpToN_exact[of "NewTokenBucket 10 Second 0" 0 12] by (simp add: NewTokenBucket_def Let_def)
qed

text \<open>
  C9. Refunding a grant undoes it: the bucket is again exactly what the refill of that call
  had made of it, although the balance is a float64.
\<close>

theorem Refund_undoes_grant:
  assumes inv: "tb_inv tb" and now: "lastRefillTime tb \<le> now" and n: "0 < n"
  shows "Refund (fst (AllowUpToN now n tb)) (snd (AllowUpToN now n tb)) = refillLocked now tb"
  using inv now n
proof (rule AllowUpToN_cases)
  fix g
  assume "AllowUpToN now n tb = (g, (refillLocked now tb)\<lparr>tokens := tokens (refillLocked now tb) - of_int g\<rparr>)"
    "0 \<le> g" "of_int g \<le> tokens (refillLocked now tb)"
  then show ?thesis using Refund_take[OF refillLocked_inv(1)[OF inv now]] by simp
qed

theorem Refund_undoes_grant_witness:
  "Refund 7 (snd (AllowUpToN 0 7 (NewTokenBucket 10 Second 0))) = NewTokenBucket 10 Second 0"
proof -
  have "tb_inv (NewTokenBucket 10 Second 0)" by (rule NewTokenBucket_inv) (simp_all add: limit_ok_def)
  moreover have "fst (AllowUpToN 0 7 (NewTokenBucket 10 Second 0)) = 7"
    "refillLocked 0 (NewTokenBucket 10 Second 0) = NewTokenBucket 10 Second 0"
    "lastRefillTime (NewTokenBucket 10 Second 0) = 0"
    by (simp_all add: tb_eval)
  ultimately show ?thesis using Refund_undoes_grant[of "NewTokenBucket 10 Second 0" 0 7] by simp
qed

end
