(* ===== verification/Storage_Iface.thy ===== *)
theory Storage_Iface
  imports Token_Bucket
begin

text \<open>
  The \<^verbatim>\<open>Storage\<close> interface of \<^verbatim>\<open>storage.go\<close>: a Go interface value is a table of operations
  over the backend's state \<open>'st\<close>; the three operations that take a metric counter take the
  value it starts from. The locale \<open>storage\<close>
  states what the interface's comments promise and every backend keeps; the rate limiter's
  lemmas are proved from it alone.
\<close>

record 'st StorageOps =
  opAllowUpToN :: "'st \<Rightarrow> string \<Rightarrow> int \<Rightarrow> int \<Rightarrow> duration \<Rightarrow> int \<times> 'st"
  opRefund :: "'st \<Rightarrow> string \<Rightarrow> int \<Rightarrow> int \<Rightarrow> duration \<Rightarrow> 'st"
  opAvailableTokens :: "'st \<Rightarrow> string \<Rightarrow> rat option \<times> 'st"
  opSetErrorCounter :: "int \<Rightarrow> 'st \<Rightarrow> 'st"
  opSetEvictionCounter :: "int \<Rightarrow> 'st \<Rightarrow> 'st"
  opSetFailOpenCounter :: "int \<Rightarrow> 'st \<Rightarrow> 'st"
  opClose :: "'st \<Rightarrow> 'st"
  opName :: "'st \<Rightarrow> string"

text \<open>A limit a bucket can be built from: what \<^verbatim>\<open>GetLimit\<close> returns, below \<open>2^53\<close>.\<close>

definition budget_ok :: "int \<times> duration \<Rightarrow> bool" where
  "budget_ok l \<longleftrightarrow> 0 < fst l \<and> limit_ok (fst l) \<and> (snd l = Second \<or> snd l = Minute)"

locale storage =
  fixes S :: "'st StorageOps" and inv :: "'st \<Rightarrow> bool"
  assumes allow_inv: "inv st \<Longrightarrow> budget_ok (limit, period) \<Longrightarrow> inv (snd (opAllowUpToN S st key n limit period))"
    and allow_range: "inv st \<Longrightarrow> budget_ok (limit, period) \<Longrightarrow>
      0 \<le> fst (opAllowUpToN S st key n limit period) \<and> fst (opAllowUpToN S st key n limit period) \<le> max 0 n"
    and refund_inv: "inv st \<Longrightarrow> budget_ok (limit, period) \<Longrightarrow> inv (opRefund S st key n limit period)"
    and available_inv: "inv st \<Longrightarrow> inv (snd (opAvailableTokens S st key))"
    and counter_inv: "inv st \<Longrightarrow> inv (opSetErrorCounter S c st) \<and> inv (opSetEvictionCounter S c st)
      \<and> inv (opSetFailOpenCounter S c st)"
    and close_inv: "inv st \<Longrightarrow> inv (opClose S st)"

end
