(* ===== verification/Rl_Config.thy ===== *)
theory Rl_Config
  imports Float64
begin

text \<open>
  The rate limiter's configuration (\<^verbatim>\<open>config.go\<close> of \<^verbatim>\<open>ratelimitprocessor\<close>): the records, the
  validation with one error per return, the defaults, and the derivation of the effective
  limit of a key, with its float64 arithmetic. \<open>cvt\<close> is the platform's result for a
  float-to-integer conversion that is out of range. Shown: every configuration, validated or
  not, gives each key a positive limit over a second or a minute; a validated fair share
  bounds the rate of every key.
\<close>

section \<open>Records\<close>

record LimitConfig =
  LC_RequestsPerSecond :: int
  LC_RequestsPerMinute :: int

record RedisConfig =
  Addr :: string
  Addrs :: "string list"
  MasterName :: string
  Password :: string
  DB :: int
  KeyPrefix :: string
  Timeout :: duration
  OnError :: string
  NegativeCacheTTL :: duration
  TLS :: "tls_client_config option"

record StorageConfig =
  Backend :: string
  MaxBuckets :: int
  Redis :: "RedisConfig option"

record Config =
  LimitType :: string
  AttributeKey :: string
  HeaderKey :: string
  RequestsPerSecond :: int
  RequestsPerMinute :: int
  DefaultLimit :: int
  DefaultLimitPeriod :: string
  SpecificLimits :: "string \<rightharpoonup> LimitConfig"
  DropOnLimit :: bool
  GlobalRequestsPerSecond :: int
  GlobalRequestsPerMinute :: int
  MaxShareRatio :: f64
  PreserveErrors :: bool
  TraceIDAware :: bool
  MetricsKeyAllowlist :: "string list"
  KeyLabelsOn :: "string list"
  MetricsVerbosity :: string
  RejectionMode :: string
  MaxMetricKeys :: int
  Storage :: "StorageConfig option"

section \<open>Validation\<close>

datatype cfg_error =
    LimitTypeMissing | LimitTypeUnknown | AttributeKeyMissing | HeaderKeyMissing | NoLimitSet
  | DefaultLimitPeriodInvalid | MaxShareRatioRange | MaxShareRatioNeedsGlobal
  | KeyLabelsOnInvalid string | RejectionModeInvalid string | MetricsVerbosityInvalid string
  | RedisMissing | RedisAddrMissing | MasterNameNeedsAddrs | OnErrorInvalid string
  | BackendInvalid string

definition validKeyLabelCounters :: "string list" where
  "validKeyLabelCounters = [''received'', ''allowed'', ''denied'', ''preserved'']"

definition validateStorage :: "StorageConfig \<Rightarrow> cfg_error option" where
  "validateStorage s =
     (if Backend s = '''' \<or> Backend s = ''memory'' then None
      else if Backend s = ''redis'' then
        (case Redis s of
           None \<Rightarrow> Some RedisMissing
         | Some r \<Rightarrow>
             if Addr r = '''' \<and> Addrs r = [] then Some RedisAddrMissing
             else if MasterName r \<noteq> '''' \<and> Addrs r = [] then Some MasterNameNeedsAddrs
             else if OnError r \<noteq> '''' \<and> OnError r \<noteq> ''open'' \<and> OnError r \<noteq> ''closed''
               then Some (OnErrorInvalid (OnError r))
             else None)
      else Some (BackendInvalid (Backend s)))"

definition Validate :: "Config \<Rightarrow> cfg_error option" where
  "Validate cfg =
     (if LimitType cfg = '''' then Some LimitTypeMissing
      else if LimitType cfg \<noteq> ''attribute'' \<and> LimitType cfg \<noteq> ''header'' \<and> LimitType cfg \<noteq> ''service_name''
        then Some LimitTypeUnknown
      else if LimitType cfg = ''attribute'' \<and> AttributeKey cfg = '''' then Some AttributeKeyMissing
      else if LimitType cfg = ''header'' \<and> HeaderKey cfg = '''' then Some HeaderKeyMissing
      else if RequestsPerSecond cfg = 0 \<and> RequestsPerMinute cfg = 0 \<and> DefaultLimit cfg = 0
        \<and> GlobalRequestsPerSecond cfg = 0 \<and> GlobalRequestsPerMinute cfg = 0 then Some NoLimitSet
      else if 0 < DefaultLimit cfg \<and> DefaultLimitPeriod cfg \<noteq> ''second'' \<and> DefaultLimitPeriod cfg \<noteq> ''minute''
        then Some DefaultLimitPeriodInvalid
      else if f64_lt (MaxShareRatio cfg) (Fin 0) \<or> f64_lt (Fin 1) (MaxShareRatio cfg)
        then Some MaxShareRatioRange
      else if f64_lt (Fin 0) (MaxShareRatio cfg) \<and> GlobalRequestsPerSecond cfg = 0 \<and> GlobalRequestsPerMinute cfg = 0
        then Some MaxShareRatioNeedsGlobal
      else case List.find (\<lambda>c. c \<notin> set validKeyLabelCounters) (KeyLabelsOn cfg) of
        Some c \<Rightarrow> Some (KeyLabelsOnInvalid c)
      | None \<Rightarrow>
          if RejectionMode cfg \<noteq> '''' \<and> RejectionMode cfg \<noteq> ''throttle'' \<and> RejectionMode cfg \<noteq> ''permanent''
            then Some (RejectionModeInvalid (RejectionMode cfg))
          else if MetricsVerbosity cfg \<noteq> '''' \<and> MetricsVerbosity cfg \<noteq> ''detailed'' \<and> MetricsVerbosity cfg \<noteq> ''basic''
            then Some (MetricsVerbosityInvalid (MetricsVerbosity cfg))
          else case Storage cfg of None \<Rightarrow> None | Some s \<Rightarrow> validateStorage s)"

section \<open>Defaults and derived settings\<close>

definition applyRedisDefaults :: "RedisConfig \<Rightarrow> RedisConfig" where
  "applyRedisDefaults r =
     r\<lparr>KeyPrefix := (if KeyPrefix r = '''' then ''otelcol:ratelimit'' else KeyPrefix r),
       Timeout := (if Timeout r = 0 then 100 * Millisecond else Timeout r),
       OnError := (if OnError r = '''' then ''open'' else OnError r)\<rparr>"

definition applyStorageDefaults :: "Config \<Rightarrow> Config" where
  "applyStorageDefaults cfg =
     (case Storage cfg of
        None \<Rightarrow> cfg
      | Some s \<Rightarrow>
          if Backend s \<noteq> ''redis'' then cfg
          else case Redis s of
            None \<Rightarrow> cfg
          | Some r \<Rightarrow> cfg\<lparr>Storage := Some (s\<lparr>Redis := Some (applyRedisDefaults r)\<rparr>)\<rparr>)"

definition createDefaultConfig :: Config where
  "createDefaultConfig =
     \<lparr>LimitType = ''service_name'', AttributeKey = '''', HeaderKey = '''',
      RequestsPerSecond = 100, RequestsPerMinute = 0, DefaultLimit = 100,
      DefaultLimitPeriod = ''second'', SpecificLimits = Map.empty, DropOnLimit = True,
      GlobalRequestsPerSecond = 0, GlobalRequestsPerMinute = 0, MaxShareRatio = Fin 0,
      PreserveErrors = True, TraceIDAware = False, MetricsKeyAllowlist = [], KeyLabelsOn = [],
      MetricsVerbosity = '''', RejectionMode = '''', MaxMetricKeys = 0, Storage = None\<rparr>"

definition defaultMaxMetricKeys :: int where "defaultMaxMetricKeys = 100"

definition metricsBasic :: "Config \<Rightarrow> bool" where
  "metricsBasic cfg \<longleftrightarrow> MetricsVerbosity cfg = ''basic''"

text \<open>A Go \<^verbatim>\<open>map[string]bool\<close> read with a missing key gives \<^verbatim>\<open>false\<close>: a predicate.\<close>

definition keyLabelSet :: "Config \<Rightarrow> string \<Rightarrow> bool" where
  "keyLabelSet cfg =
     (if metricsBasic cfg then (\<lambda>_. False)
      else let src = (if KeyLabelsOn cfg = [] then [''denied'', ''preserved''] else KeyLabelsOn cfg)
           in fold (\<lambda>c labels. labels(c := True)) src (\<lambda>_. False))"

section \<open>Limits\<close>

definition GlobalLimit :: "Config \<Rightarrow> int \<times> duration" where
  "GlobalLimit cfg =
     (if 0 < GlobalRequestsPerSecond cfg then (GlobalRequestsPerSecond cfg, Second)
      else if 0 < GlobalRequestsPerMinute cfg then (GlobalRequestsPerMinute cfg, Minute)
      else (0, 0))"

definition capToShare :: "(f64 \<Rightarrow> int) \<Rightarrow> Config \<Rightarrow> int \<Rightarrow> duration \<Rightarrow> int \<times> duration" where
  "capToShare cvt cfg limit period =
     (if f64_le (MaxShareRatio cfg) (Fin 0) then (limit, period)
      else case GlobalLimit cfg of (gLimit, gPeriod) \<Rightarrow>
        if gLimit = 0 then (limit, period)
        else let keyRPS = Fin (fl (fl (of_int limit) / Seconds period));
                 globalRPS = Fin (fl (fl (of_int gLimit) / Seconds gPeriod));
                 capRPS = f64_mul globalRPS (MaxShareRatio cfg)
             in if f64_le keyRPS capRPS then (limit, period)
                else let capped = int64_of_f64 cvt (f64_mul capRPS (Fin (Seconds period)))
                     in (if capped < 1 then 1 else capped, period))"

definition shareLimit :: "(f64 \<Rightarrow> int) \<Rightarrow> Config \<Rightarrow> (int \<times> duration) option" where
  "shareLimit cvt cfg =
     (if f64_lt (Fin 0) (MaxShareRatio cfg) then
        case GlobalLimit cfg of (gLimit, gPeriod) \<Rightarrow>
          if 0 < gLimit
          then let share = int64_of_f64 cvt (f64_mul (Fin (fl (of_int gLimit))) (MaxShareRatio cfg))
               in Some (if share < 1 then 1 else share, gPeriod)
          else None
      else None)"

definition perKeyLimit :: "(f64 \<Rightarrow> int) \<Rightarrow> Config \<Rightarrow> int \<times> duration" where
  "perKeyLimit cvt cfg =
     (if 0 < RequestsPerSecond cfg then capToShare cvt cfg (RequestsPerSecond cfg) Second
      else if 0 < RequestsPerMinute cfg then capToShare cvt cfg (RequestsPerMinute cfg) Minute
      else if 0 < DefaultLimit cfg
        then capToShare cvt cfg (DefaultLimit cfg) (if DefaultLimitPeriod cfg = ''minute'' then Minute else Second)
      else case GlobalLimit cfg of (gLimit, gPeriod) \<Rightarrow>
        if 0 < gLimit then (gLimit, gPeriod) else (100, Second))"

definition specificLimit :: "(f64 \<Rightarrow> int) \<Rightarrow> Config \<Rightarrow> string \<Rightarrow> (int \<times> duration) option" where
  "specificLimit cvt cfg key =
     (case SpecificLimits cfg key of
        None \<Rightarrow> None
      | Some l \<Rightarrow>
          if 0 < LC_RequestsPerSecond l then Some (capToShare cvt cfg (LC_RequestsPerSecond l) Second)
          else if 0 < LC_RequestsPerMinute l then Some (capToShare cvt cfg (LC_RequestsPerMinute l) Minute)
          else None)"

definition GetLimit :: "(f64 \<Rightarrow> int) \<Rightarrow> Config \<Rightarrow> string \<Rightarrow> int \<times> duration" where
  "GetLimit cvt cfg key =
     (case specificLimit cvt cfg key of
        Some l \<Rightarrow> l
      | None \<Rightarrow> (case shareLimit cvt cfg of Some l \<Rightarrow> l | None \<Rightarrow> perKeyLimit cvt cfg))"

definition wf_limit :: "int \<times> duration \<Rightarrow> bool" where
  "wf_limit l \<longleftrightarrow> 1 \<le> fst l \<and> (snd l = Second \<or> snd l = Minute)"

lemma GlobalLimit_cases:
  obtains "GlobalLimit cfg = (0, 0)"
  | g p where "GlobalLimit cfg = (g, p)" "0 < g" "p = Second \<or> p = Minute"
  unfolding GlobalLimit_def by (cases "0 < GlobalRequestsPerSecond cfg"; cases "0 < GlobalRequestsPerMinute cfg") auto

lemma capToShare_wf: "wf_limit (l, p) \<Longrightarrow> wf_limit (capToShare cvt cfg l p)"
  by (auto simp: capToShare_def wf_limit_def Let_def split: prod.splits)

lemma shareLimit_wf: "shareLimit cvt cfg = Some l \<Longrightarrow> wf_limit l"
  by (rule GlobalLimit_cases[of cfg]) (auto simp: shareLimit_def wf_limit_def Let_def split: if_splits)

lemma specificLimit_wf: "specificLimit cvt cfg key = Some l \<Longrightarrow> wf_limit l"
  by (auto simp: specificLimit_def intro!: capToShare_wf split: option.splits if_splits)
    (auto simp: wf_limit_def)

lemma perKeyLimit_wf: "wf_limit (perKeyLimit cvt cfg)"
  by (rule GlobalLimit_cases[of cfg])
    (auto simp: perKeyLimit_def intro!: capToShare_wf, auto simp: wf_limit_def)

lemma GetLimit_wf: "wf_limit (GetLimit cvt cfg key)"
  using specificLimit_wf[of cvt cfg key] shareLimit_wf[of cvt cfg] perKeyLimit_wf[of cvt cfg]
  by (auto simp: GetLimit_def split: option.splits)

lemma GetLimit_bounds:
  "1 \<le> fst (GetLimit cvt cfg key)" "snd (GetLimit cvt cfg key) \<in> {Second, Minute}"
  "0 < snd (GetLimit cvt cfg key)"
  using GetLimit_wf[of cvt cfg key] by (auto simp: wf_limit_def)


section \<open>Fair share\<close>

text \<open>
  The cap on one key's rate that \<^const>\<open>capToShare\<close> computes, in tokens per second, and the
  bound on it in exact arithmetic.
\<close>

definition share_ok :: "int \<Rightarrow> duration \<Rightarrow> rat \<Rightarrow> bool" where
  "share_ok g gp r \<longleftrightarrow> 0 < g \<and> g \<le> 2 ^ 53 \<and> (gp = Second \<or> gp = Minute) \<and> 0 < r \<and> r \<le> 1"

definition capRPS :: "int \<Rightarrow> duration \<Rightarrow> rat \<Rightarrow> rat" where
  "capRPS g gp r = fl (fl (fl (of_int g) / Seconds gp) * r)"

lemma period_Seconds: "gp = Second \<or> gp = Minute \<Longrightarrow> 1 \<le> Seconds gp \<and> Seconds gp \<le> 60"
  by auto

lemma capRPS_bounds:
  assumes "share_ok g gp r"
  shows "0 \<le> capRPS g gp r" "capRPS g gp r \<le> 2 ^ 53"
    and "capRPS g gp r \<le> of_int g / Seconds gp * r * (1 + f64_eps) ^ 2 + 3 * f64_tiny"
    and "f64_mul (Fin (fl (fl (of_int g) / Seconds gp))) (Fin r) = Fin (capRPS g gp r)"
proof -
  let ?q = "1 + f64_eps" and ?t = f64_tiny
  define G where "G = Seconds gp"
  define a where "a = fl (of_int g / G)"
  have G: "1 \<le> G" and g: "0 < g" "g \<le> 2 ^ 53" and r: "0 < r" "r \<le> 1"
    using assms period_Seconds[of gp] by (auto simp: share_ok_def G_def)
  have flg: "fl (of_int g) = of_int g" using g by (intro fl_of_int) simp
  have g53: "(of_int g :: rat) \<le> of_int (2 ^ 53)" using g(2) by (simp only: of_int_le_iff)
  have "0 \<le> of_int g / G" using G g by simp
  then have a: "0 \<le> a" "a \<le> of_int g" "a \<le> of_int g / G * ?q + ?t"
    using F.rnd_upper[of "of_int g / G"] G g flg
    by (auto simp: a_def divide_le_eq intro!: fl_nonneg F.rnd_le)
  have cap: "capRPS g gp r = fl (a * r)" by (simp add: capRPS_def flg a_def G_def)
  show nn: "0 \<le> capRPS g gp r" using a r by (simp add: cap fl_nonneg)
  have "fl (a * r) \<le> a" using a r by (intro F.rnd_le) (auto simp: mult_left_le a_def)
  with a(2) g53 show le: "capRPS g gp r \<le> 2 ^ 53" by (simp add: cap)
  have q: "1 \<le> ?q" "?q \<le> 2" and t: "0 \<le> ?t"
    using F.eps_pos F.tiny_pos by (auto simp: f64_eps_def)
  have "fl (a * r) \<le> a * r * ?q + ?t" using a r by (intro F.rnd_upper) auto
  also have "a * r * ?q \<le> (of_int g / G * ?q + ?t) * r * ?q"
    using a(3) r q by (intro mult_right_mono) auto
  also have "\<dots> \<le> of_int g / G * r * ?q ^ 2 + 2 * ?t"
  proof -
    have eq: "(x * y + z) * r * y = x * r * y ^ 2 + z * r * y" for x y z :: rat
      by (simp add: power2_eq_square algebra_simps)
    have "?t * r * ?q \<le> ?t * 1 * 2" using q r t by (intro mult_mono) auto
    then show ?thesis unfolding eq by simp
  qed
  finally show "capRPS g gp r \<le> of_int g / Seconds gp * r * ?q ^ 2 + 3 * ?t"
    by (simp add: cap G_def)
  have "(2::rat) ^ 53 < 2 ^ 1024" by (rule power_strict_increasing) auto
  with nn le have "\<bar>fl (a * r)\<bar> < 2 ^ 1024" unfolding cap by linarith
  then show "f64_mul (Fin (fl (fl (of_int g) / Seconds gp))) (Fin r) = Fin (capRPS g gp r)"
    unfolding cap by (simp only: f64_mul.simps flg a_def G_def f64_norm_small)
qed


text \<open>The bound every key's limit keeps: a floor of one item, or its share of the global rate.\<close>

definition within_share :: "int \<Rightarrow> duration \<Rightarrow> rat \<Rightarrow> int \<times> duration \<Rightarrow> bool" where
  "within_share g gp r l \<longleftrightarrow> fst l = 1 \<or>
     of_int (fst l) / Seconds (snd l) * (1 - f64_eps) ^ 2
       \<le> of_int g / Seconds gp * r * (1 + f64_eps) ^ 3 + 7 * f64_tiny"

lemma within_shareI:
  assumes ok: "share_ok g gp r" and p: "p = Second \<or> p = Minute" and l: "0 \<le> l"
    and le: "of_int l / Seconds p \<le> capRPS g gp r * (1 + f64_eps) + f64_tiny"
  shows "within_share g gp r (l, p)"
proof -
  define q t K where "q = 1 + f64_eps" and "t = f64_tiny" and "K = of_int g / Seconds gp * r"
  have q: "1 \<le> q" "q \<le> 2" "(1 - f64_eps) ^ 2 \<le> 1" and t: "0 \<le> t"
    using F.eps_pos F.tiny_pos by (auto simp: q_def t_def f64_eps_def power_le_one)
  have "of_int l / Seconds p * (1 - f64_eps) ^ 2 \<le> of_int l / Seconds p * 1"
    using q l period_Seconds[OF p] by (intro mult_left_mono) auto
  also have "\<dots> \<le> capRPS g gp r * q + t" using le by (simp add: q_def t_def)
  also have "\<dots> \<le> (K * q ^ 2 + 3 * t) * q + t"
    using capRPS_bounds(3)[OF ok] q by (intro add_right_mono mult_right_mono) (auto simp: q_def t_def K_def)
  also have "\<dots> \<le> K * q ^ 3 + 7 * t"
    using mult_left_mono[OF q(2), of "3 * t"] t by (simp add: algebra_simps eval_nat_numeral)
  finally show ?thesis by (simp add: within_share_def q_def t_def K_def)
qed

lemma keyRPS_le:
  assumes ok: "share_ok g gp r" and p: "p = Second \<or> p = Minute" and l: "0 \<le> l"
    and le: "fl (fl (of_int l) / Seconds p) \<le> capRPS g gp r"
  shows "within_share g gp r (l, p)"
proof -
  define e q t where "e = 1 - f64_eps" and "q = 1 + f64_eps" and "t = f64_tiny"
  define L K where "L = of_int l / Seconds p" and "K = of_int g / Seconds gp * r"
  have e: "0 \<le> e" "e \<le> 1" "1 \<le> q" and t: "0 \<le> t"
    using F.eps_pos F.tiny_pos by (auto simp: e_def q_def t_def f64_eps_def)
  have P: "1 \<le> Seconds p" using period_Seconds[OF p] by simp
  have K: "0 \<le> K" using ok period_Seconds[of gp] by (auto simp: K_def share_ok_def)
  have "(of_int l * e - t) / Seconds p \<le> fl (of_int l) / Seconds p"
    using F.rnd_lower[of "of_int l"] l P by (intro divide_right_mono) (auto simp: e_def t_def)
  moreover have "(of_int l * e - t) / Seconds p = L * e - t / Seconds p"
    by (simp add: L_def diff_divide_distrib)
  moreover have "t / Seconds p \<le> t" using P t by (simp add: divide_le_eq mult_le_cancel_left1)
  ultimately have "L * e - t \<le> fl (of_int l) / Seconds p" by linarith
  then have "(L * e - t) * e \<le> fl (of_int l) / Seconds p * e" using e by (intro mult_right_mono)
  also have "\<dots> \<le> capRPS g gp r + t"
    using F.rnd_lower[of "fl (of_int l) / Seconds p"] l P fl_nonneg[of "of_int l"] le
    by (simp add: e_def t_def)
  finally have "L * e ^ 2 \<le> capRPS g gp r + t + t * e"
    by (simp add: power2_eq_square algebra_simps)
  moreover have "t * e \<le> t" using t e by (simp add: mult_left_le)
  moreover have "capRPS g gp r \<le> K * q ^ 2 + 3 * t"
    using capRPS_bounds(3)[OF ok] by (simp add: K_def q_def t_def)
  moreover have "K * q ^ 2 \<le> K * q ^ 3" using K e by (intro mult_left_mono power_increasing) auto
  ultimately have "L * e ^ 2 \<le> K * q ^ 3 + 7 * t" using t by linarith
  then show ?thesis by (simp add: within_share_def L_def K_def e_def q_def t_def)
qed

lemma capToShare_within:
  assumes ok: "share_ok g gp r" and cfg: "GlobalLimit cfg = (g, gp)" "MaxShareRatio cfg = Fin r"
    and l: "0 < l" and p: "p = Second \<or> p = Minute"
  shows "within_share g gp r (capToShare cvt cfg l p)"
proof (cases "fl (fl (of_int l) / Seconds p) \<le> capRPS g gp r")
  case True
  moreover have "\<not> r \<le> 0" "g \<noteq> 0" using ok by (auto simp: share_ok_def)
  ultimately have "capToShare cvt cfg l p = (l, p)"
    by (simp add: capToShare_def cfg capRPS_bounds(4)[OF ok] Let_def del: f64_mul.simps)
  with keyRPS_le[OF ok p _ True] l show ?thesis by simp
next
  case False
  define x where "x = fl (capRPS g gp r * Seconds p)"
  note b = capRPS_bounds[OF ok]
  have P: "1 \<le> Seconds p" "Seconds p \<le> 60" using period_Seconds[OF p] by auto
  have "capRPS g gp r * Seconds p \<le> 2 ^ 53 * 2 ^ 6"
    using b P by (intro mult_mono) auto
  then have "x \<le> 2 ^ 59"
    unfolding x_def using fl_powi[of 59] by (intro F.rnd_le) (simp_all add: power_int_def)
  moreover have x0: "0 \<le> x" unfolding x_def using b P by (intro fl_nonneg) simp
  moreover have "(2::rat) ^ 59 < 2 ^ 1024" by (rule power_strict_increasing) auto
  ultimately have "f64_mul (Fin (capRPS g gp r)) (Fin (Seconds p)) = Fin x"
    and cvt: "int64_of_f64 cvt (Fin x) = \<lfloor>x\<rfloor>"
    by (simp_all only: x_def f64_mul.simps f64_norm_small abs_of_nonneg order.strict_trans1)
      (rule int64_of_f64_pos; simp)
  then have eq: "capToShare cvt cfg l p = (if \<lfloor>x\<rfloor> < 1 then 1 else \<lfloor>x\<rfloor>, p)"
    using False ok cfg b(4) by (simp add: capToShare_def Let_def share_ok_def del: f64_mul.simps)
  show ?thesis
  proof (cases "\<lfloor>x\<rfloor> < 1")
    case True
    then show ?thesis by (simp add: eq within_share_def)
  next
    case False
    have "of_int \<lfloor>x\<rfloor> / Seconds p \<le> (capRPS g gp r * Seconds p * (1 + f64_eps) + f64_tiny) / Seconds p"
      using F.rnd_upper[of "capRPS g gp r * Seconds p"] b(1) P
      by (intro divide_right_mono) (auto simp: x_def intro: order_trans[OF of_int_floor_le])
    also have "\<dots> \<le> capRPS g gp r * (1 + f64_eps) + f64_tiny"
      using P F.tiny_pos by (simp add: add_divide_distrib divide_le_eq mult_le_cancel_left1)
    finally show ?thesis using False x0 by (simp add: eq within_shareI[OF ok p])
  qed
qed


lemma shareLimit_within:
  assumes ok: "share_ok g gp r" and cfg: "GlobalLimit cfg = (g, gp)" "MaxShareRatio cfg = Fin r"
  obtains l where "shareLimit cvt cfg = Some l" "within_share g gp r l"
proof -
  let ?q = "1 + f64_eps"
  have g: "0 < g" "g \<le> 2 ^ 53" and r: "0 < r" "r \<le> 1" and gp: "gp = Second \<or> gp = Minute"
    using ok by (auto simp: share_ok_def)
  have flg: "fl (of_int g) = of_int g" using g by (intro fl_of_int) simp
  define x where "x = fl (of_int g * r)"
  have x0: "0 \<le> x" using g r by (simp add: x_def fl_nonneg)
  have "x \<le> of_int g" unfolding x_def using g r flg by (intro F.rnd_le) (auto simp: mult_left_le)
  also have "(of_int g :: rat) \<le> of_int (2 ^ 53)" using g(2) by (simp only: of_int_le_iff)
  finally have x53: "x \<le> 2 ^ 53" by simp
  have "(2::rat) ^ 53 < 2 ^ 1024" by (rule power_strict_increasing) auto
  with x0 x53 have "\<bar>fl (of_int g * r)\<bar> < 2 ^ 1024" unfolding x_def by linarith
  then have mul: "f64_mul (Fin (fl (of_int g))) (Fin r) = Fin x"
    unfolding flg x_def by (simp only: f64_mul.simps f64_norm_small)
  have "x < 2 ^ 63" using x53 by (rule order.strict_trans1) simp
  with x0 have cvt: "int64_of_f64 cvt (Fin x) = \<lfloor>x\<rfloor>" by (rule int64_of_f64_pos)
  let ?l = "(if \<lfloor>x\<rfloor> < 1 then 1 else \<lfloor>x\<rfloor>, gp)"
  have "within_share g gp r ?l"
  proof (cases "\<lfloor>x\<rfloor> < 1")
    case False
    define K where "K = of_int g / Seconds gp * r"
    have S: "1 \<le> Seconds gp" using period_Seconds[OF gp] by simp
    have q: "1 \<le> ?q" "(1 - f64_eps) ^ 2 \<le> 1"
      using F.eps_pos by (auto simp: f64_eps_def power_le_one)
    have K: "0 \<le> K" using g r S by (simp add: K_def)
    have "of_int \<lfloor>x\<rfloor> / Seconds gp * (1 - f64_eps) ^ 2 \<le> of_int \<lfloor>x\<rfloor> / Seconds gp * 1"
      using q x0 S by (intro mult_left_mono) auto
    also have "\<dots> \<le> (of_int g * r * ?q + f64_tiny) / Seconds gp"
      using F.rnd_upper[of "of_int g * r"] g r S
      by (simp add: divide_right_mono x_def order_trans[OF of_int_floor_le])
    also have "\<dots> = K * ?q + f64_tiny / Seconds gp" by (simp add: K_def add_divide_distrib)
    also have "f64_tiny / Seconds gp \<le> f64_tiny"
      using S F.tiny_pos by (simp add: divide_le_eq mult_le_cancel_left1)
    also have "K * ?q \<le> K * ?q ^ 3"
      using K q power_increasing[of 1 3 ?q] by (intro mult_left_mono) auto
    finally show ?thesis using False F.tiny_pos by (simp add: within_share_def K_def)
  qed (simp add: within_share_def)
  moreover have "shareLimit cvt cfg = Some ?l"
    using g r by (simp add: shareLimit_def cfg mul cvt Let_def del: f64_mul.simps)
  ultimately show ?thesis by (rule that[rotated])
qed

lemma GetLimit_within:
  assumes ok: "share_ok g gp r" and cfg: "GlobalLimit cfg = (g, gp)" "MaxShareRatio cfg = Fin r"
  shows "within_share g gp r (GetLimit cvt cfg key)"
proof (cases "specificLimit cvt cfg key")
  case None
  obtain l where "shareLimit cvt cfg = Some l" "within_share g gp r l"
    by (rule shareLimit_within[OF assms])
  with None show ?thesis by (simp add: GetLimit_def)
next
  case (Some l)
  then have "within_share g gp r l"
    by (auto simp: specificLimit_def split: option.splits if_splits intro!: capToShare_within[OF assms])
  with Some show ?thesis by (simp add: GetLimit_def)
qed

section \<open>Properties\<close>

text \<open>
  C10. Whatever the configuration, validated or not, and whatever the platform makes of an
  out-of-range conversion, every key gets a limit of at least one item over a second or a
  minute: a bucket is never built with a zero limit or a zero period.
\<close>

theorem getlimit_positive:
  "1 \<le> fst (GetLimit cvt cfg key) \<and> snd (GetLimit cvt cfg key) \<in> {Second, Minute}"
  using GetLimit_bounds[of cvt cfg key] by simp



text \<open>
  Filling in the storage defaults is idempotent, never turns a valid configuration into an
  invalid one or back, and leaves every limit as it was.
\<close>

theorem storage_defaults:
  "applyStorageDefaults (applyStorageDefaults cfg) = applyStorageDefaults cfg
   \<and> Validate (applyStorageDefaults cfg) = Validate cfg
   \<and> GetLimit cvt (applyStorageDefaults cfg) key = GetLimit cvt cfg key"
proof -
  have id: "applyRedisDefaults (applyRedisDefaults r) = applyRedisDefaults r" for r
    by (simp add: applyRedisDefaults_def)
  have gl: "GlobalLimit (cfg\<lparr>Storage := x\<rparr>) = GlobalLimit cfg" for x by (simp add: GlobalLimit_def)
  then have cap: "capToShare cvt (cfg\<lparr>Storage := x\<rparr>) = capToShare cvt cfg" for x
    by (auto simp: capToShare_def fun_eq_iff split: prod.split)
  have "specificLimit cvt (cfg\<lparr>Storage := x\<rparr>) key = specificLimit cvt cfg key" for x
    by (cases "SpecificLimits cfg key") (simp_all add: specificLimit_def cap)
  moreover have "shareLimit cvt (cfg\<lparr>Storage := x\<rparr>) = shareLimit cvt cfg" for x
    by (simp add: shareLimit_def gl split_beta)
  moreover have "perKeyLimit cvt (cfg\<lparr>Storage := x\<rparr>) = perKeyLimit cvt cfg" for x
    by (simp add: perKeyLimit_def gl cap split_beta)
  ultimately have same: "GetLimit cvt (cfg\<lparr>Storage := x\<rparr>) key = GetLimit cvt cfg key" for x
    by (simp add: GetLimit_def split: option.split)
  have val: "validateStorage (s\<lparr>Redis := Some (applyRedisDefaults r)\<rparr>) = validateStorage s" if "Redis s = Some r" for s r
    using that by (simp add: validateStorage_def applyRedisDefaults_def)
  have "Validate (cfg\<lparr>Storage := Some s'\<rparr>) = Validate cfg" if "Storage cfg = Some s" "validateStorage s' = validateStorage s" for s s'
    using that by (cases "List.find (\<lambda>c. c \<notin> set validKeyLabelCounters) (KeyLabelsOn cfg)") (simp_all add: Validate_def)
  with id same val show ?thesis
    by (simp add: applyStorageDefaults_def split: option.split)
qed

end
