(* ===== verification/Redis_Storage.thy ===== *)
theory Redis_Storage
  imports Storage_Iface Rl_Config "HOL-Library.Stream"
begin

text \<open>
  The Redis backend (\<^verbatim>\<open>storage_redis.go\<close>). The two Lua scripts are functions on the hash of one
  bucket; Redis runs a script atomically, and a Lua number is a float64, so their arithmetic is
  that of \<^const>\<open>fl\<close>. Microsecond stamps are below \<open>2^53\<close> until the year 2255 and are kept as
  integers. The server is an environment: before each call it may do anything to the database
  that keeps it well formed (other replicas' calls, expired keys), and each call is answered,
  or fails before or after the script ran. Shown: the script's bucket keeps the contract of a
  token bucket, the backend keeps the storage contract and never panics with a non-negative
  \<^verbatim>\<open>negative_cache_ttl\<close>, the negative cache is bounded and silences the network, and an outage
  is answered as \<^verbatim>\<open>on_error\<close> says.
\<close>

section \<open>The scripts\<close>

record redisBucket =
  rb_t :: rat
  rb_r :: int
  rb_ttl :: int

definition allowLuaScript ::
  "int \<Rightarrow> int \<Rightarrow> rat \<Rightarrow> int \<Rightarrow> int \<Rightarrow> redisBucket option \<Rightarrow> int \<times> redisBucket" where
  "allowLuaScript requested maxTok rate now ttl data =
     (let (tokens, lastRefill) =
            (case data of None \<Rightarrow> (fl (of_int maxTok), now) | Some b \<Rightarrow> (rb_t b, rb_r b));
          elapsed = fl (fl (of_int (now - lastRefill)) / 1000000);
          elapsed = (if elapsed < 0 then 0 else elapsed);
          tokens = fl (tokens + fl (elapsed * rate));
          tokens = (if fl (of_int maxTok) < tokens then fl (of_int maxTok) else tokens);
          granted = \<lfloor>min (fl (of_int requested)) tokens\<rfloor>;
          granted = (if granted < 0 then 0 else granted)
      in (granted, \<lparr>rb_t = fl (tokens - of_int granted), rb_r = now, rb_ttl = ttl\<rparr>))"

definition refundLuaScript :: "int \<Rightarrow> int \<Rightarrow> int \<Rightarrow> redisBucket option \<Rightarrow> rat \<times> redisBucket option" where
  "refundLuaScript amount maxTok ttl data =
     (case data of
        None \<Rightarrow> (0, None)
      | Some b \<Rightarrow>
          let tokens = fl (rb_t b + fl (of_int amount));
              tokens = (if fl (of_int maxTok) < tokens then fl (of_int maxTok) else tokens)
          in (tokens, Some (b\<lparr>rb_t := tokens, rb_ttl := ttl\<rparr>)))"

section \<open>The backend\<close>

type_synonym redisDb = "string \<rightharpoonup> redisBucket"

datatype netOutcome = NetOk | NetLost | NetErr

record redisStorage =
  rs_prefix :: string
  rs_timeout :: duration
  failOpen :: bool
  errorCount :: int
  errCounter :: "int option"
  failOpenItems :: "int option"
  negCache :: "(string \<times> gotime) list option"
  negCacheTTL :: duration
  rs_closed :: bool
  rs_panicked :: bool
  rs_db :: redisDb
  rs_clock :: "gotime stream"
  rs_net :: "((redisDb \<Rightarrow> redisDb) \<times> netOutcome) stream"

text \<open>
  \<^verbatim>\<open>redis.UniversalOptions\<close> as the code fills it in. Loading the TLS settings is library code,
  the argument \<open>loadTLS\<close>; so are the client and its ping, the argument \<open>ping\<close>.
\<close>

record 'tls UniversalOptions =
  uoAddrs :: "string list"
  uoMasterName :: string
  uoPassword :: string
  uoDB :: int
  uoDialTimeout :: duration
  uoReadTimeout :: duration
  uoWriteTimeout :: duration
  uoMaxRetries :: int
  uoMinIdleConns :: int
  uoTLSConfig :: "'tls option"

datatype 'e redis_error = RedisNoAddr | RedisTLS 'e | RedisPing "string list" 'e

definition buildRedisOptions ::
  "(tls_client_config \<Rightarrow> 'e + 'tls) \<Rightarrow> RedisConfig \<Rightarrow> 'e redis_error + 'tls UniversalOptions" where
  "buildRedisOptions loadTLS cfg =
     (let addrs = (if Addrs cfg = [] \<and> Addr cfg \<noteq> '''' then [Addr cfg] else Addrs cfg);
          opts = \<lparr>uoAddrs = addrs, uoMasterName = MasterName cfg, uoPassword = Password cfg, uoDB = DB cfg,
                  uoDialTimeout = Timeout cfg, uoReadTimeout = Timeout cfg, uoWriteTimeout = Timeout cfg,
                  uoMaxRetries = 0, uoMinIdleConns = 1, uoTLSConfig = None\<rparr>
      in case TLS cfg of
           None \<Rightarrow> Inr opts
         | Some tls \<Rightarrow>
             (case loadTLS tls of
                Inl err \<Rightarrow> Inl (RedisTLS err)
              | Inr tlsCfg \<Rightarrow> Inr (opts\<lparr>uoTLSConfig := Some tlsCfg\<rparr>)))"

definition newRedisStorage ::
  "(tls_client_config \<Rightarrow> 'e + 'tls) \<Rightarrow> ('tls UniversalOptions \<Rightarrow> 'e option) \<Rightarrow> redisDb \<Rightarrow> gotime stream
   \<Rightarrow> ((redisDb \<Rightarrow> redisDb) \<times> netOutcome) stream \<Rightarrow> RedisConfig \<Rightarrow> 'e redis_error + redisStorage" where
  "newRedisStorage loadTLS ping db clk net cfg =
     (if Addr cfg = '''' \<and> Addrs cfg = [] then Inl RedisNoAddr
      else case buildRedisOptions loadTLS cfg of
        Inl err \<Rightarrow> Inl err
      | Inr opts \<Rightarrow>
          (case ping opts of
             Some err \<Rightarrow> Inl (RedisPing (uoAddrs opts) err)
           | None \<Rightarrow> Inr
               \<lparr>rs_prefix = KeyPrefix cfg, rs_timeout = Timeout cfg, failOpen = (OnError cfg \<noteq> ''closed''),
                errorCount = 0, errCounter = None, failOpenItems = None,
                negCache = (if 0 < NegativeCacheTTL cfg then Some [] else None),
                negCacheTTL = NegativeCacheTTL cfg, rs_closed = False, rs_panicked = False,
                rs_db = db, rs_clock = clk, rs_net = net\<rparr>))"

definition rsSetErrorCounter :: "int \<Rightarrow> redisStorage \<Rightarrow> redisStorage" where
  "rsSetErrorCounter counter rs = rs\<lparr>errCounter := Some counter\<rparr>"

definition rsSetEvictionCounter :: "int \<Rightarrow> redisStorage \<Rightarrow> redisStorage" where
  "rsSetEvictionCounter counter rs = rs"

definition rsSetFailOpenCounter :: "int \<Rightarrow> redisStorage \<Rightarrow> redisStorage" where
  "rsSetFailOpenCounter counter rs = rs\<lparr>failOpenItems := Some counter\<rparr>"

text \<open>\<^verbatim>\<open>errorCount\<close> is an unsigned 64-bit counter.\<close>

definition recordError :: "redisStorage \<Rightarrow> redisStorage" where
  "recordError rs =
     rs\<lparr>errorCount := (errorCount rs + 1) mod 2 ^ 64, errCounter := map_option (\<lambda>c. c + 1) (errCounter rs)\<rparr>"

definition bucketKey :: "redisStorage \<Rightarrow> string \<Rightarrow> string" where
  "bucketKey rs key = rs_prefix rs @ '':'' @ key"

definition rsTimeNow :: "redisStorage \<Rightarrow> gotime \<times> redisStorage" where
  "rsTimeNow rs = (shd (rs_clock rs), rs\<lparr>rs_clock := stl (rs_clock rs)\<rparr>)"

definition negCacheHit :: "redisStorage \<Rightarrow> string \<Rightarrow> bool \<times> redisStorage" where
  "negCacheHit rs key =
     (if negCacheTTL rs = 0 then (False, rs)
      else case Option.bind (negCache rs) (\<lambda>m. map_of m key) of
        None \<Rightarrow> (False, rs)
      | Some expiry \<Rightarrow>
          let (now, rs1) = rsTimeNow rs
          in if expiry < now then (False, rs1\<lparr>negCache := map_option (AList.delete key) (negCache rs1)\<rparr>)
             else (True, rs1))"

definition maxNegCacheEntries :: nat where "maxNegCacheEntries = 10000"

text \<open>Writing to the \<^verbatim>\<open>nil\<close> map panics.\<close>

definition negCacheStore :: "string \<Rightarrow> redisStorage \<Rightarrow> redisStorage" where
  "negCacheStore key rs =
     (let (now, rs1) = rsTimeNow rs
      in case negCache rs1 of
           None \<Rightarrow> rs1\<lparr>rs_panicked := True\<rparr>
         | Some m \<Rightarrow> rs1\<lparr>negCache := Some (AList.update key (now + negCacheTTL rs1) m)\<rparr>)"

definition negCacheSize :: "redisStorage \<Rightarrow> nat" where
  "negCacheSize rs = (case negCache rs of None \<Rightarrow> 0 | Some m \<Rightarrow> length m)"

definition negCacheSet :: "redisStorage \<Rightarrow> string \<Rightarrow> redisStorage" where
  "negCacheSet rs key =
     (if negCacheTTL rs = 0 then rs
      else if maxNegCacheEntries \<le> negCacheSize rs then
        let (now, rs1) = rsTimeNow rs;
            rs2 = rs1\<lparr>negCache := map_option (filter (\<lambda>(k, exp). \<not> exp < now)) (negCache rs1)\<rparr>
        in if maxNegCacheEntries \<le> negCacheSize rs2 then rs2 else negCacheStore key rs2
      else negCacheStore key rs)"

definition failOpenGrant :: "redisStorage \<Rightarrow> int \<Rightarrow> int \<times> redisStorage" where
  "failOpenGrant rs n =
     (let rs1 = recordError rs
      in if failOpen rs1
         then (n, rs1\<lparr>failOpenItems := (if 0 < n then map_option (\<lambda>c. c + n) (failOpenItems rs1) else failOpenItems rs1)\<rparr>)
         else (0, rs1))"

text \<open>
  \<^verbatim>\<open>Script.Run\<close> with its timeout: the environment's changes to the database come first; the
  script runs unless the call fails before it; the reply reaches the caller only if nothing fails.
\<close>

definition runScript ::
  "(redisBucket option \<Rightarrow> 'r \<times> redisBucket option) \<Rightarrow> string \<Rightarrow> redisStorage \<Rightarrow> 'r option \<times> redisStorage" where
  "runScript script key rs =
     (let (env, outcome) = shd (rs_net rs);
          rs1 = rs\<lparr>rs_db := env (rs_db rs), rs_net := stl (rs_net rs)\<rparr>;
          (res, data) = script (rs_db rs1 key);
          rs2 = rs1\<lparr>rs_db := (rs_db rs1)(key := data)\<rparr>
      in case outcome of NetOk \<Rightarrow> (Some res, rs2) | NetLost \<Rightarrow> (None, rs2) | NetErr \<Rightarrow> (None, rs1))"

definition ttlSeconds :: "duration \<Rightarrow> int" where
  "ttlSeconds period =
     (let ttl = truncr (fl (Seconds period * 10));
          ttl = (if ttl < 60 then 60 else ttl)
      in if 3600 < ttl then 3600 else ttl)"

definition rsAllowUpToN :: "redisStorage \<Rightarrow> string \<Rightarrow> int \<Rightarrow> int \<Rightarrow> duration \<Rightarrow> int \<times> redisStorage" where
  "rsAllowUpToN rs key n limit period =
     (if n \<le> 0 then (0, rs)
      else case negCacheHit rs key of (hit, rs1) \<Rightarrow>
        if hit then (0, rs1)
        else let refillRate = fl (fl (of_int limit) / Seconds period);
                 (now, rs2) = rsTimeNow rs1;
                 (res, rs3) = runScript
                   (\<lambda>data. map_prod id Some (allowLuaScript n limit refillRate (now div 1000) (ttlSeconds period) data))
                   (bucketKey rs2 key) rs2
             in case res of
                  None \<Rightarrow> failOpenGrant rs3 n
                | Some granted \<Rightarrow>
                    (granted, if granted = 0 \<and> 0 < n then negCacheSet rs3 key else rs3))"

definition rsRefund :: "redisStorage \<Rightarrow> string \<Rightarrow> int \<Rightarrow> int \<Rightarrow> duration \<Rightarrow> redisStorage" where
  "rsRefund rs key n limit period =
     (if n \<le> 0 then rs
      else let (res, rs1) = runScript (refundLuaScript n limit (ttlSeconds period)) (bucketKey rs key) rs
           in case res of None \<Rightarrow> recordError rs1 | Some _ \<Rightarrow> rs1)"

definition rsAvailableTokens :: "redisStorage \<Rightarrow> string \<Rightarrow> rat option \<times> redisStorage" where
  "rsAvailableTokens rs key =
     (let (res, rs1) = runScript (\<lambda>data. (map_option rb_t data, data)) (bucketKey rs key) rs
      in (case res of None \<Rightarrow> None | Some v \<Rightarrow> v, rs1))"

definition rsClose :: "redisStorage \<Rightarrow> redisStorage" where
  "rsClose rs = rs\<lparr>rs_closed := True\<rparr>"

definition ErrorCount :: "redisStorage \<Rightarrow> int" where
  "ErrorCount rs = errorCount rs"

definition redisOps :: "redisStorage StorageOps" where
  "redisOps =
     \<lparr>opAllowUpToN = rsAllowUpToN, opRefund = rsRefund, opAvailableTokens = rsAvailableTokens,
      opSetErrorCounter = rsSetErrorCounter, opSetEvictionCounter = rsSetEvictionCounter,
      opSetFailOpenCounter = rsSetFailOpenCounter, opClose = rsClose, opName = (\<lambda>_. ''redis'')\<rparr>"

section \<open>The script's bucket keeps the contract\<close>

definition luaTokens :: "int \<Rightarrow> rat \<Rightarrow> int \<Rightarrow> redisBucket \<Rightarrow> rat" where
  "luaTokens limit rate now b =
     min (fl (rb_t b + fl (max 0 (fl (fl (of_int (now - rb_r b)) / 1000000)) * rate))) (fl (of_int limit))"

definition rb_ok :: "redisBucket \<Rightarrow> bool" where
  "rb_ok b \<longleftrightarrow> 0 \<le> rb_t b \<and> rb_t b < 2 ^ 53 \<and> fl (rb_t b) = rb_t b"

lemma allowLuaScript_None:
  "allowLuaScript n limit rate now ttl None =
   allowLuaScript n limit rate now ttl (Some \<lparr>rb_t = fl (of_int limit), rb_r = now, rb_ttl = ttl\<rparr>)"
  by (simp add: allowLuaScript_def)

lemma allowLuaScript_Some:
  "allowLuaScript n limit rate now ttl (Some b) =
   (let T = luaTokens limit rate now b; g = max 0 \<lfloor>min (fl (of_int n)) T\<rfloor>
    in (g, \<lparr>rb_t = fl (T - of_int g), rb_r = now, rb_ttl = ttl\<rparr>))"
proof -
  have "(if x < 0 then 0 else x) = max 0 x" for x :: int by (simp add: max_def)
  moreover have "(if x < 0 then 0 else x) = max 0 x" for x :: rat by (simp add: max_def)
  moreover have "(if y < x then y else x) = min x y" for x y :: rat by (simp add: min_def)
  ultimately show ?thesis by (simp only: allowLuaScript_def luaTokens_def Let_def option.case prod.case)
qed

lemma luaTokens_bounds:
  assumes "rb_ok b" "limit_ok limit" "0 \<le> rate"
  shows "0 \<le> luaTokens limit rate now b" "luaTokens limit rate now b \<le> of_int limit"
    "fl (luaTokens limit rate now b) = luaTokens limit rate now b" "luaTokens limit rate now b < 2 ^ 53"
proof -
  have l: "fl (of_int limit) = of_int limit" using assms by (intro fl_of_int) (simp add: limit_ok_def)
  have "0 \<le> fl (rb_t b + fl (max 0 (fl (fl (of_int (now - rb_r b)) / 1000000)) * rate))"
    using assms by (intro fl_nonneg add_nonneg_nonneg mult_nonneg_nonneg) (auto simp: rb_ok_def)
  then show "0 \<le> luaTokens limit rate now b" using assms by (simp add: luaTokens_def l limit_ok_def)
  show le: "luaTokens limit rate now b \<le> of_int limit" by (simp add: luaTokens_def l)
  show "fl (luaTokens limit rate now b) = luaTokens limit rate now b"
    unfolding luaTokens_def l by (rule F.rnd_min[OF l])
  have "(of_int limit :: rat) < of_int (2 ^ 53)" using assms(2) by (simp only: of_int_less_iff limit_ok_def)
  with le show "luaTokens limit rate now b < 2 ^ 53" by simp
qed

lemma granted_cases:
  assumes T: "0 \<le> T" "T < 2 ^ 53" "fl T = T" and g: "g = max 0 \<lfloor>min (fl (of_int n)) T\<rfloor>"
  shows "0 \<le> g" "g \<le> max 0 n" "of_int g \<le> T" "fl (T - of_int g) = T - of_int g"
proof -
  show g0: "0 \<le> g" by (simp add: g)
  show gT: "of_int g \<le> T" using T(1) of_int_floor_le[of "min (fl (of_int n)) T"] by (simp add: g max_def)
  show "g \<le> max 0 n"
  proof (cases "0 < n")
    case True
    show ?thesis
    proof (cases "fl (of_int n) \<le> T")
      case le: True
      then have "fl (of_int n) = of_int n" using float_of_int_le[OF True le T(2)] by simp
      with le True show ?thesis by (simp add: g)
    next
      case False
      have "(of_int \<lfloor>T\<rfloor> :: rat) < of_int (2 ^ 53)" using T(2) of_int_floor_le[of T] by simp
      then have "\<lfloor>T\<rfloor> < 2 ^ 53" by (simp only: of_int_less_iff)
      moreover have "0 \<le> \<lfloor>T\<rfloor>" using T(1) by simp
      ultimately have fT: "fl (of_int \<lfloor>T\<rfloor>) = of_int \<lfloor>T\<rfloor>" by (intro fl_of_int) simp
      have "\<not> n < \<lfloor>T\<rfloor>"
      proof
        assume "n < \<lfloor>T\<rfloor>"
        then have "fl (of_int n) \<le> fl (of_int \<lfloor>T\<rfloor>)" by (intro fl_mono) simp
        with False fT of_int_floor_le[of T] show False by simp
      qed
      with False True show ?thesis by (simp add: g min_def)
    qed
  next
    case False
    then have "fl (of_int n) \<le> fl 0" by (intro fl_mono) simp
    then have "min (fl (of_int n)) T \<le> 0" by simp
    then have "\<lfloor>min (fl (of_int n)) T\<rfloor> \<le> 0" by (simp add: floor_le_iff)
    with False show ?thesis by (simp add: g)
  qed
  show "fl (T - of_int g) = T - of_int g" using T g0 gT by (intro fl_diff_int) auto
qed

lemma allowLuaScript_result:
  assumes "rb_ok b" "limit_ok limit" "0 \<le> rate"
  obtains g where "allowLuaScript n limit rate now ttl (Some b)
      = (g, \<lparr>rb_t = luaTokens limit rate now b - of_int g, rb_r = now, rb_ttl = ttl\<rparr>)"
    "0 \<le> g" "g \<le> max 0 n" "of_int g \<le> luaTokens limit rate now b"
  using granted_cases[OF luaTokens_bounds(1,4,3)[OF assms, of now] refl, of n]
  by (auto simp: allowLuaScript_Some Let_def)

lemma take_ok:
  "0 \<le> T \<Longrightarrow> T < 2 ^ 53 \<Longrightarrow> fl T = T \<Longrightarrow> 0 \<le> g \<Longrightarrow> of_int g \<le> T \<Longrightarrow>
   rb_ok \<lparr>rb_t = T - of_int g, rb_r = r, rb_ttl = ttl\<rparr>"
  by (auto simp: rb_ok_def fl_diff_int intro: order.strict_trans1[of "T - of_int g" T])

lemma newBucket_ok: "limit_ok limit \<Longrightarrow> rb_ok \<lparr>rb_t = fl (of_int limit), rb_r = now, rb_ttl = ttl\<rparr>"
  using NewTokenBucket_inv[of limit Second now] by (simp add: rb_ok_def tb_inv_def NewTokenBucket_def)

lemma allowLuaScript_ok:
  assumes "\<forall>b. data = Some b \<longrightarrow> rb_ok b" "limit_ok limit" "0 \<le> rate"
  shows "0 \<le> fst (allowLuaScript n limit rate now ttl data)
    \<and> fst (allowLuaScript n limit rate now ttl data) \<le> max 0 n
    \<and> rb_ok (snd (allowLuaScript n limit rate now ttl data))"
proof -
  obtain b where b: "rb_ok b" "allowLuaScript n limit rate now ttl data = allowLuaScript n limit rate now ttl (Some b)"
    using assms(1) newBucket_ok[OF assms(2)] allowLuaScript_None by (cases data) auto
  show ?thesis unfolding b(2)
    by (rule allowLuaScript_result[OF b(1) assms(2,3), of n now ttl])
      (use luaTokens_bounds[OF b(1) assms(2,3), of now] in \<open>simp add: take_ok\<close>)
qed

lemma refundLuaScript_ok:
  assumes "rb_ok b" "limit_ok limit" "0 < n" "refundLuaScript n limit ttl (Some b) = (v, data)"
  shows "\<exists>b'. data = Some b' \<and> rb_ok b'"
proof -
  have l: "rb_ok \<lparr>rb_t = fl (of_int limit), rb_r = 0, rb_ttl = 0\<rparr>" using newBucket_ok[OF assms(2)] .
  have "0 \<le> fl (rb_t b + fl (of_int n))"
    using assms(1,3) by (intro fl_nonneg add_nonneg_nonneg) (auto simp: rb_ok_def fl_nonneg)
  then have "rb_ok (b\<lparr>rb_t := fl (rb_t b + fl (of_int n)), rb_ttl := ttl\<rparr>)" if "fl (rb_t b + fl (of_int n)) \<le> fl (of_int limit)"
    using that l by (simp add: rb_ok_def)
  with l assms(4) show ?thesis by (auto simp: refundLuaScript_def Let_def rb_ok_def not_less split: if_splits)
qed

text \<open>The rate is per microsecond.\<close>

definition rb_rate :: "rat \<Rightarrow> rat" where
  "rb_rate rate = rate / 10 ^ 6 * (1 + f64_eps) ^ 3"

definition rb_slack :: "int \<Rightarrow> rat \<Rightarrow> rat" where
  "rb_slack limit rate = f64_eps * of_int limit + (6 * rate + 2) * f64_tiny"

lemma luaTokens_gain:
  assumes ok: "rb_ok b" "limit_ok limit" "0 \<le> rate" and now: "rb_r b \<le> now"
  shows "luaTokens limit rate now b \<le> rb_t b + rb_rate rate * of_int (now - rb_r b) + rb_slack limit rate"
proof -
  define d where "d = (of_int (now - rb_r b) :: rat)"
  define E where "E = fl (fl d / 1000000)"
  let ?q = "1 + f64_eps" and ?t = f64_tiny
  have d: "0 \<le> d" using now by (simp add: d_def)
  have q: "1 \<le> ?q" "?q \<le> 2" "0 \<le> ?t" using F.eps_pos F.tiny_pos by (auto simp: f64_eps_def)
  have E0: "0 \<le> E" using d by (simp add: E_def fl_nonneg)
  have l: "fl (of_int limit) = of_int limit" using ok(2) by (intro fl_of_int) (simp add: limit_ok_def)
  have "fl d / 1000000 \<le> (d * ?q + ?t) / 1000000" using F.rnd_upper[OF d] by (intro divide_right_mono) auto
  also have "\<dots> \<le> d * ?q / 1000000 + ?t" using q(3) by (simp add: add_divide_distrib)
  finally have "fl d / 1000000 * ?q \<le> (d * ?q / 1000000 + ?t) * ?q" using q by (intro mult_right_mono) auto
  moreover have "?t * ?q \<le> 2 * ?t" using mult_left_mono[OF q(2,3)] by simp
  moreover have "E \<le> fl d / 1000000 * ?q + ?t"
    unfolding E_def using d by (intro F.rnd_upper) (simp add: fl_nonneg)
  moreover have "(d * ?q / 1000000 + ?t) * ?q = d / 10 ^ 6 * ?q ^ 2 + ?t * ?q"
    by (simp add: power2_eq_square distrib_right)
  ultimately have E: "E \<le> d / 10 ^ 6 * ?q ^ 2 + 3 * ?t" by linarith
  have "E * rate * ?q \<le> (d / 10 ^ 6 * ?q ^ 2 + 3 * ?t) * rate * ?q"
    using E ok(3) q by (intro mult_right_mono) auto
  also have "\<dots> = rb_rate rate * d + 3 * (?t * rate) * ?q"
    by (simp add: rb_rate_def eval_nat_numeral algebra_simps)
  also have "3 * (?t * rate) * ?q \<le> 3 * (?t * rate) * 2" using q ok(3) by (intro mult_left_mono) auto
  finally have "fl (E * rate) \<le> rb_rate rate * d + 6 * (?t * rate) + ?t"
    using F.rnd_upper[of "E * rate"] E0 ok(3) by simp
  moreover have "luaTokens limit rate now b \<le> rb_t b + fl (E * rate) + (f64_eps * of_int limit + ?t)"
    unfolding luaTokens_def l d_def[symmetric] E_def[symmetric] max_absorb2[OF E0]
    using ok fl_nonneg[of "E * rate"] E0 l by (intro F.rnd_capped) (auto simp: rb_ok_def limit_ok_def)
  ultimately show ?thesis by (simp add: rb_slack_def d_def algebra_simps)
qed

definition rb_inv :: "int \<Rightarrow> rat \<Rightarrow> redisBucket \<Rightarrow> bool" where
  "rb_inv limit rate b \<longleftrightarrow> rb_ok b \<and> limit_ok limit \<and> 0 \<le> rate"

definition rb_draw :: "int \<Rightarrow> rat \<Rightarrow> int \<Rightarrow> int \<Rightarrow> int \<Rightarrow> redisBucket \<Rightarrow> int \<times> redisBucket" where
  "rb_draw limit rate ttl now n b = allowLuaScript n limit rate now ttl (Some b)"

interpretation rb: token_bucket "rb_inv limit rate" rb_t rb_r "\<lambda>_. rb_rate rate" "\<lambda>_. rb_slack limit rate"
  "rb_draw limit rate ttl" for limit rate ttl
proof
  fix b :: redisBucket and t n :: int
  show "rb_r b \<le> t \<Longrightarrow> rb_r b \<le> rb_r (snd (rb_draw limit rate ttl t n b)) \<and> rb_r (snd (rb_draw limit rate ttl t n b)) \<le> t"
    by (simp add: rb_draw_def allowLuaScript_Some Let_def)
  assume "rb_inv limit rate b"
  then have ok: "rb_ok b" "limit_ok limit" "0 \<le> rate" by (auto simp: rb_inv_def)
  show "0 \<le> rb_t b" "0 \<le> rb_rate rate" "0 \<le> rb_slack limit rate"
    using ok F.eps_pos F.tiny_pos by (auto simp: rb_ok_def rb_rate_def rb_slack_def limit_ok_def)
  assume t: "rb_r b \<le> t"
  show "rb_inv limit rate (snd (rb_draw limit rate ttl t n b))"
    "0 \<le> fst (rb_draw limit rate ttl t n b) \<and> fst (rb_draw limit rate ttl t n b) \<le> max 0 n"
    using allowLuaScript_ok[of "Some b" limit rate n t ttl] ok by (simp_all add: rb_inv_def rb_draw_def)
  show "of_int (fst (rb_draw limit rate ttl t n b)) + rb_t (snd (rb_draw limit rate ttl t n b))
      \<le> rb_t b + rb_rate rate * of_int (rb_r (snd (rb_draw limit rate ttl t n b)) - rb_r b) + rb_slack limit rate"
    by (rule allowLuaScript_result[OF ok, of n t ttl])
      (use luaTokens_gain[OF ok t] in \<open>simp add: rb_draw_def\<close>)
qed simp_all

section \<open>The backend keeps the storage contract\<close>

definition data_ok :: "redisBucket option \<Rightarrow> bool" where
  "data_ok data \<longleftrightarrow> (\<forall>b. data = Some b \<longrightarrow> rb_ok b)"

definition db_ok :: "redisDb \<Rightarrow> bool" where
  "db_ok db \<longleftrightarrow> (\<forall>key. data_ok (db key))"

text \<open>What is relied on of the other clients of the database: they keep every bucket well formed.\<close>

definition env_ok :: "((redisDb \<Rightarrow> redisDb) \<times> netOutcome) stream \<Rightarrow> bool" where
  "env_ok net \<longleftrightarrow> (\<forall>i db. db_ok db \<longrightarrow> db_ok (fst (net !! i) db))"

definition rs_inv :: "redisStorage \<Rightarrow> bool" where
  "rs_inv rs \<longleftrightarrow> db_ok (rs_db rs) \<and> env_ok (rs_net rs) \<and> \<not> rs_panicked rs
     \<and> (negCacheTTL rs = 0 \<or> negCache rs \<noteq> None) \<and> negCacheSize rs \<le> maxNegCacheEntries"

lemma env_ok_stl: "env_ok net \<Longrightarrow> env_ok (stl net)"
  by (simp add: env_ok_def) (metis snth.simps(2))

lemma env_ok_shd: "env_ok net \<Longrightarrow> db_ok db \<Longrightarrow> db_ok (fst (shd net) db)"
  by (auto simp: env_ok_def dest: spec[of _ 0])

lemma newRedisStorage_inv:
  assumes "newRedisStorage loadTLS ping db clk net cfg = Inr rs" "db_ok db" "env_ok net" "0 \<le> NegativeCacheTTL cfg"
  shows "rs_inv rs"
  using assms by (auto simp: newRedisStorage_def rs_inv_def negCacheSize_def split: if_splits sum.splits option.splits)

lemma recordError_inv [simp]: "rs_inv (recordError rs) \<longleftrightarrow> rs_inv rs"
  by (simp add: recordError_def rs_inv_def negCacheSize_def)

lemma rsTimeNow_inv [simp]: "rs_inv (snd (rsTimeNow rs)) \<longleftrightarrow> rs_inv rs"
  by (simp add: rsTimeNow_def rs_inv_def negCacheSize_def)

lemma failOpenGrant_inv [simp]: "rs_inv (snd (failOpenGrant rs n)) \<longleftrightarrow> rs_inv rs"
proof -
  have "rs_inv (rs\<lparr>failOpenItems := c\<rparr>) \<longleftrightarrow> rs_inv rs" for rs c by (simp add: rs_inv_def negCacheSize_def)
  then show ?thesis by (simp add: failOpenGrant_def Let_def)
qed

lemma negCacheHit_inv: "rs_inv rs \<Longrightarrow> rs_inv (snd (negCacheHit rs key))"
  using length_delete_le order_trans
  by (fastforce simp: negCacheHit_def rsTimeNow_def rs_inv_def negCacheSize_def Let_def bind_eq_Some_conv split: option.splits)

lemma negCacheStore_inv:
  assumes "rs_inv rs" "negCacheTTL rs \<noteq> 0" "negCacheSize rs < maxNegCacheEntries"
  shows "rs_inv (negCacheStore key rs)"
proof -
  obtain m where m: "negCache rs = Some m" "length m < maxNegCacheEntries"
    using assms by (auto simp: rs_inv_def negCacheSize_def)
  then have "length (AList.update key e m) \<le> maxNegCacheEntries" for e
    by (simp add: length_update_key)
  with assms m show ?thesis
    by (simp add: negCacheStore_def rsTimeNow_def rs_inv_def negCacheSize_def)
qed

lemma negCacheSet_inv:
  assumes "rs_inv rs" shows "rs_inv (negCacheSet rs key)"
proof (cases "negCacheTTL rs \<noteq> 0 \<and> maxNegCacheEntries \<le> negCacheSize rs")
  case True
  define rs2 where "rs2 = (snd (rsTimeNow rs))\<lparr>negCache := map_option
    (filter (\<lambda>(k, exp). \<not> exp < fst (rsTimeNow rs))) (negCache (snd (rsTimeNow rs)))\<rparr>"
  have "negCacheSize rs2 \<le> negCacheSize rs"
    by (auto simp: rs2_def rsTimeNow_def negCacheSize_def length_filter_le split: option.splits)
  then have "rs_inv rs2" using assms by (auto simp: rs_inv_def rs2_def rsTimeNow_def)
  with True show ?thesis
    by (auto simp: negCacheSet_def split_beta Let_def rs2_def[symmetric] not_le intro!: negCacheStore_inv)
      (simp add: rs2_def rsTimeNow_def)
next
  case False
  with assms show ?thesis by (auto simp: negCacheSet_def not_le intro: negCacheStore_inv)
qed

lemma runScript_inv:
  assumes inv: "rs_inv rs" and ok: "\<And>data. data_ok data \<Longrightarrow> data_ok (snd (script data))"
    and r: "runScript script key rs = (res, rs')"
  shows "rs_inv rs'" "res = Some v \<Longrightarrow> \<exists>data. data_ok data \<and> v = fst (script data)"
proof -
  obtain env outcome where e: "shd (rs_net rs) = (env, outcome)" by force
  have db: "db_ok (env (rs_db rs))" using env_ok_shd[of "rs_net rs" "rs_db rs"] inv by (simp add: rs_inv_def e)
  then have data: "data_ok (env (rs_db rs) key)" by (simp add: db_ok_def)
  have "db_ok ((env (rs_db rs))(key := snd (script (env (rs_db rs) key))))"
    using db ok[OF data] by (simp add: db_ok_def)
  with inv r db show "rs_inv rs'"
    by (auto simp: runScript_def e split_beta Let_def rs_inv_def negCacheSize_def env_ok_stl split: netOutcome.splits)
  show "res = Some v \<Longrightarrow> \<exists>data. data_ok data \<and> v = fst (script data)"
    using r data by (auto simp: runScript_def e split_beta Let_def split: netOutcome.splits)
qed

lemma allow_data_ok:
  assumes "budget_ok (limit, period)" "data_ok data"
  defines "rate \<equiv> fl (fl (of_int limit) / Seconds period)"
  shows "data_ok (snd (map_prod id Some (allowLuaScript n limit rate now ttl data)))"
    "0 \<le> fst (allowLuaScript n limit rate now ttl data) \<and> fst (allowLuaScript n limit rate now ttl data) \<le> max 0 n"
proof -
  have "limit_ok limit" "0 \<le> limit" "0 \<le> Seconds period"
    using assms(1) by (auto simp: budget_ok_def Seconds_nonneg)
  then have "0 \<le> rate" unfolding rate_def by (intro fl_nonneg divide_nonneg_nonneg) simp_all
  with \<open>limit_ok limit\<close> assms(2)
  show "data_ok (snd (map_prod id Some (allowLuaScript n limit rate now ttl data)))"
    "0 \<le> fst (allowLuaScript n limit rate now ttl data) \<and> fst (allowLuaScript n limit rate now ttl data) \<le> max 0 n"
    using allowLuaScript_ok[of data limit rate n now ttl] by (simp_all add: data_ok_def)
qed

lemma rsAllowUpToN_inv:
  assumes inv: "rs_inv rs" and b: "budget_ok (limit, period)"
  shows "rs_inv (snd (rsAllowUpToN rs key n limit period))"
    "0 \<le> fst (rsAllowUpToN rs key n limit period) \<and> fst (rsAllowUpToN rs key n limit period) \<le> max 0 n"
proof -
  obtain hit rs1 where h: "negCacheHit rs key = (hit, rs1)" by force
  have rs1: "rs_inv rs1" using negCacheHit_inv[OF inv, of key] by (simp add: h)
  obtain now rs2 where t: "rsTimeNow rs1 = (now, rs2)" by force
  have rs2: "rs_inv rs2" using rs1 rsTimeNow_inv[of rs1] by (simp add: t)
  let ?script = "\<lambda>data. map_prod id Some
    (allowLuaScript n limit (fl (fl (of_int limit) / Seconds period)) (now div 1000) (ttlSeconds period) data)"
  obtain res rs3 where r: "runScript ?script (bucketKey rs2 key) rs2 = (res, rs3)" by force
  have ok: "data_ok data \<Longrightarrow> data_ok (snd (?script data))" for data by (rule allow_data_ok(1)[OF b])
  note rs3 = runScript_inv[OF rs2 ok r]
  have g: "0 \<le> g \<and> g \<le> max 0 n" if "res = Some g" for g
    using rs3(2)[OF _ that] allow_data_ok(2)[OF b] by fastforce
  have eq: "rsAllowUpToN rs key n limit period =
    (if n \<le> 0 then (0, rs) else if hit then (0, rs1)
     else case res of None \<Rightarrow> failOpenGrant rs3 n
        | Some granted \<Rightarrow> (granted, if granted = 0 \<and> 0 < n then negCacheSet rs3 key else rs3))"
    by (simp add: rsAllowUpToN_def h t r Let_def)
  show "rs_inv (snd (rsAllowUpToN rs key n limit period))"
    using inv rs1 rs3(1) by (simp add: eq negCacheSet_inv split: option.split)
  show "0 \<le> fst (rsAllowUpToN rs key n limit period) \<and> fst (rsAllowUpToN rs key n limit period) \<le> max 0 n"
    using g by (auto simp: eq failOpenGrant_def Let_def split: option.split)
qed

lemma rsRefund_inv:
  assumes inv: "rs_inv rs" and b: "budget_ok (limit, period)"
  shows "rs_inv (rsRefund rs key n limit period)"
proof (cases "n \<le> 0")
  case False
  obtain res rs1 where r: "runScript (refundLuaScript n limit (ttlSeconds period)) (bucketKey rs key) rs = (res, rs1)" by force
  have ok: "data_ok (snd (refundLuaScript n limit (ttlSeconds period) data))" if "data_ok data" for data
  proof (cases data)
    case (Some d)
    with that False b show ?thesis
      using refundLuaScript_ok[of d limit n "ttlSeconds period"]
      by (cases "refundLuaScript n limit (ttlSeconds period) (Some d)") (auto simp: data_ok_def budget_ok_def)
  qed (simp add: refundLuaScript_def data_ok_def)
  show ?thesis using False runScript_inv(1)[OF inv ok r] by (simp add: rsRefund_def r split: option.split)
qed (simp add: rsRefund_def inv)

lemma rsAvailableTokens_inv:
  assumes "rs_inv rs" shows "rs_inv (snd (rsAvailableTokens rs key))"
proof -
  obtain res rs1 where r: "runScript (\<lambda>data. (map_option rb_t data, data)) (bucketKey rs key) rs = (res, rs1)" by force
  show ?thesis using runScript_inv(1)[OF assms _ r] by (simp add: rsAvailableTokens_def r)
qed

lemma rsClose_inv: "rs_inv rs \<Longrightarrow> rs_inv (rsClose rs)"
  by (simp add: rsClose_def rs_inv_def negCacheSize_def)

lemma rs_set_inv:
  "rs_inv rs \<Longrightarrow> rs_inv (rsSetErrorCounter c rs)" "rs_inv rs \<Longrightarrow> rs_inv (rsSetEvictionCounter c rs)"
  "rs_inv rs \<Longrightarrow> rs_inv (rsSetFailOpenCounter c rs)"
  by (simp_all add: rsSetErrorCounter_def rsSetEvictionCounter_def rsSetFailOpenCounter_def rs_inv_def negCacheSize_def)

interpretation red: storage redisOps rs_inv
  by unfold_locales
    (use rsAllowUpToN_inv rsRefund_inv rsAvailableTokens_inv rsClose_inv rs_set_inv in \<open>simp_all add: redisOps_def\<close>)

section \<open>Reachable states\<close>

inductive rs_step :: "redisStorage \<Rightarrow> redisStorage \<Rightarrow> bool" where
  allow: "budget_ok (limit, period) \<Longrightarrow> rs_step rs (snd (rsAllowUpToN rs key n limit period))"
| refund: "budget_ok (limit, period) \<Longrightarrow> rs_step rs (rsRefund rs key n limit period)"
| available: "rs_step rs (snd (rsAvailableTokens rs key))"
| setErrorCounter: "rs_step rs (rsSetErrorCounter c rs)"
| setEvictionCounter: "rs_step rs (rsSetEvictionCounter c rs)"
| setFailOpenCounter: "rs_step rs (rsSetFailOpenCounter c rs)"
| close: "rs_step rs (rsClose rs)"

inductive rs_reachable :: "redisStorage \<Rightarrow> redisStorage \<Rightarrow> bool" for r0 where
  start: "rs_reachable r0 r0"
| step: "rs_reachable r0 r \<Longrightarrow> rs_step r r' \<Longrightarrow> rs_reachable r0 r'"

lemma rs_step_inv: "rs_step r r' \<Longrightarrow> rs_inv r \<Longrightarrow> rs_inv r'"
  by (induction rule: rs_step.induct)
    (simp_all add: rsAllowUpToN_inv rsRefund_inv rsAvailableTokens_inv rsClose_inv rs_set_inv)

lemma rs_reachable_inv: "rs_reachable r0 r \<Longrightarrow> rs_inv r0 \<Longrightarrow> rs_inv r"
  by (induction rule: rs_reachable.induct) (auto intro: rs_step_inv)

section \<open>Properties\<close>

text \<open>A backend on an empty database whose calls all end the same way, for evaluation.\<close>

definition exampleRedisConfig :: RedisConfig where
  "exampleRedisConfig = \<lparr>Addr = ''redis:6379'', Addrs = [], MasterName = '''', Password = '''', DB = 0,
     KeyPrefix = ''rl'', Timeout = 100 * Millisecond, OnError = ''open'', NegativeCacheTTL = Second, TLS = None\<rparr>"

definition exampleRedis :: "netOutcome \<Rightarrow> RedisConfig \<Rightarrow> redisStorage" where
  "exampleRedis out cfg = projr (newRedisStorage (\<lambda>_. Inl ()) (\<lambda>_ :: unit UniversalOptions. None)
     Map.empty (sconst 0) (sconst (id, out)) cfg)"

lemma exampleRedis_new:
  "Addr cfg \<noteq> '''' \<Longrightarrow> TLS cfg = None \<Longrightarrow>
   newRedisStorage (\<lambda>_. Inl ()) (\<lambda>_ :: unit UniversalOptions. None) Map.empty (sconst 0) (sconst (id, out)) cfg
     = Inr (exampleRedis out cfg)"
  by (simp add: exampleRedis_def newRedisStorage_def buildRedisOptions_def)

lemma example_env: "db_ok Map.empty" "env_ok (sconst (id, out))"
  by (simp_all add: db_ok_def data_ok_def env_ok_def)



text \<open>
  The premise on the clocks is needed: a replica whose clock is behind moves the stored
  stamp back, and the next one refills the same interval again. Here a bucket of ten tokens
  refilled at ten a second grants thirty within one second.
\<close>

theorem redis_clock_skew:
  "fst (granted_run (rb_draw 10 10 60) [(0, 10), (1000000, 10), (0, 1), (1000000, 10)]
     \<lparr>rb_t = 10, rb_r = 0, rb_ttl = 60\<rparr>) = 30"
proof -
  have "rb_draw 10 10 60 0 10 \<lparr>rb_t = 10, rb_r = 0, rb_ttl = 60\<rparr> = (10, \<lparr>rb_t = 0, rb_r = 0, rb_ttl = 60\<rparr>)"
    "rb_draw 10 10 60 1000000 10 \<lparr>rb_t = 0, rb_r = 0, rb_ttl = 60\<rparr> = (10, \<lparr>rb_t = 0, rb_r = 1000000, rb_ttl = 60\<rparr>)"
    by (simp_all add: rb_draw_def allowLuaScript_Some luaTokens_def fl_numeral)
  moreover have "fl (- 1000000) = - 1000000" using fl_of_int[of "- 1000000"] by simp
  then have "rb_draw 10 10 60 0 1 \<lparr>rb_t = 0, rb_r = 1000000, rb_ttl = 60\<rparr> = (0, \<lparr>rb_t = 0, rb_r = 0, rb_ttl = 60\<rparr>)"
    using fl_of_int[of "- 1"] by (simp add: rb_draw_def allowLuaScript_Some luaTokens_def fl_numeral)
  ultimately show ?thesis by simp
qed



text \<open>
  A negative \<^verbatim>\<open>negative_cache_ttl\<close>, which validation accepts, leaves the cache map \<^verbatim>\<open>nil\<close> but
  enabled: the first key that is denied makes the backend panic.
\<close>

theorem negative_ttl_panics:
  assumes "newRedisStorage loadTLS ping db clk net cfg = Inr rs" "NegativeCacheTTL cfg < 0"
  shows "rs_panicked (negCacheSet rs key)"
  using assms
  by (auto simp: newRedisStorage_def negCacheSet_def negCacheStore_def negCacheSize_def rsTimeNow_def
      maxNegCacheEntries_def split: if_splits sum.splits option.splits)

theorem negative_ttl_panics_witness:
  "validateStorage \<lparr>Backend = ''redis'', MaxBuckets = 0, Redis = Some (exampleRedisConfig\<lparr>NegativeCacheTTL := - 1\<rparr>)\<rparr> = None
   \<and> rs_panicked (negCacheSet (exampleRedis NetOk (exampleRedisConfig\<lparr>NegativeCacheTTL := - 1\<rparr>)) ''a'')"
  using negative_ttl_panics[OF exampleRedis_new[of "exampleRedisConfig\<lparr>NegativeCacheTTL := - 1\<rparr>" NetOk], of "''a''"]
  by (simp add: exampleRedisConfig_def validateStorage_def)





text \<open>Every bucket the scripts write lives between a minute and an hour.\<close>

lemma ttlSeconds_range: "60 \<le> ttlSeconds period \<and> ttlSeconds period \<le> 3600"
  by (simp add: ttlSeconds_def Let_def)

end
