(* ===== verification/Evict_Heap.thy ===== *)
theory Evict_Heap
  imports Prelude
begin

text \<open>
  The bounded max-heap with which \<^verbatim>\<open>evictOldestLocked\<close> (\<^verbatim>\<open>storage_memory.go\<close>) selects the oldest
  entries of the bucket map in one scan: \<open>siftDown\<close>, the sift-up loop and the scan over the
  map in the order the runtime chooses. Shown: both loops restore the heap order and only
  permute the array, so the scan ends with the oldest entries, whatever the order.
\<close>

type_synonym entry = "string \<times> gotime"

definition swap :: "'a list \<Rightarrow> nat \<Rightarrow> nat \<Rightarrow> 'a list" where
  "swap h i j = h[i := h ! j, j := h ! i]"

definition newest :: "entry list \<Rightarrow> nat \<Rightarrow> nat" where
  "newest h i =
     (let l = 2 * i + 1; r = 2 * i + 2;
          n = (if l < length h \<and> snd (h ! i) < snd (h ! l) then l else i)
      in if r < length h \<and> snd (h ! n) < snd (h ! r) then r else n)"

lemma newest_cases: "newest h i = i \<or> (i < newest h i \<and> newest h i < length h)"
  by (auto simp: newest_def Let_def)

lemma length_swap [simp]: "length (swap h i j) = length h"
  by (simp add: swap_def)

function siftDown :: "entry list \<Rightarrow> nat \<Rightarrow> entry list" where
  "siftDown h i = (let n = newest h i in if n = i then h else siftDown (swap h i n) n)"
  by pat_completeness auto
termination
  by (relation "measure (\<lambda>(h, i). length h - i)") (use newest_cases in \<open>fastforce+\<close>)

declare siftDown.simps [simp del]

definition parent :: "nat \<Rightarrow> nat" where "parent k = (k - 1) div 2"

lemma parent_less [simp]: "0 < k \<Longrightarrow> parent k < k"
  by (auto simp: parent_def)

lemma parent_bound [simp]: "0 < k \<Longrightarrow> k < n \<Longrightarrow> parent k < n"
  by (auto simp: parent_def)

function siftUp :: "entry list \<Rightarrow> nat \<Rightarrow> entry list" where
  "siftUp h i =
     (if 0 < i
      then let p = parent i
           in if \<not> snd (h ! p) < snd (h ! i) then h else siftUp (swap h i p) p
      else h)"
  by pat_completeness auto
termination
  by (relation "measure snd") auto

declare siftUp.simps [simp del]

definition scanStep :: "nat \<Rightarrow> entry \<Rightarrow> entry list \<Rightarrow> entry list" where
  "scanStep remove e h =
     (if length h < remove then siftUp (h @ [e]) (length h)
      else if snd e < snd (h ! 0) then siftDown (h[0 := e]) 0
      else h)"

definition oldestEntries :: "nat \<Rightarrow> entry list \<Rightarrow> entry list" where
  "oldestEntries remove es = fold (scanStep remove) es []"

section \<open>Heap order\<close>

definition heap :: "entry list \<Rightarrow> bool" where
  "heap h \<longleftrightarrow> (\<forall>k. 0 < k \<and> k < length h \<longrightarrow> snd (h ! k) \<le> snd (h ! parent k))"

text \<open>
  While an entry travels, the order holds everywhere but around its position \<open>i\<close>, where
  its parent still dominates its children.
\<close>

definition heap_down :: "entry list \<Rightarrow> nat \<Rightarrow> bool" where
  "heap_down h i \<longleftrightarrow> (\<forall>k. 0 < k \<and> k < length h \<longrightarrow>
     (parent k \<noteq> i \<longrightarrow> snd (h ! k) \<le> snd (h ! parent k))
     \<and> (parent k = i \<and> 0 < i \<longrightarrow> snd (h ! k) \<le> snd (h ! parent i)))"

definition heap_up :: "entry list \<Rightarrow> nat \<Rightarrow> bool" where
  "heap_up h i \<longleftrightarrow> (\<forall>k. 0 < k \<and> k < length h \<longrightarrow>
     (k \<noteq> i \<longrightarrow> snd (h ! k) \<le> snd (h ! parent k))
     \<and> (parent k = i \<and> 0 < i \<longrightarrow> snd (h ! k) \<le> snd (h ! parent i)))"

lemma parent_iff: "0 < k \<Longrightarrow> parent k = i \<longleftrightarrow> k = 2 * i + 1 \<or> k = 2 * i + 2"
  by (auto simp: parent_def)

lemma mset_swap [simp]: "i < length h \<Longrightarrow> j < length h \<Longrightarrow> mset (swap h i j) = mset h"
  by (simp add: swap_def mset_swap)

lemma nth_swap:
  "i < length h \<Longrightarrow> j < length h \<Longrightarrow> k < length h \<Longrightarrow>
   swap h i j ! k = (if k = i then h ! j else if k = j then h ! i else h ! k)"
  by (auto simp: swap_def nth_list_update)

text \<open>\<^const>\<open>newest\<close> is the position of the newest of \<open>i\<close> and its children.\<close>

lemma newest_parent: "newest h i \<noteq> i \<Longrightarrow> parent (newest h i) = i"
  by (auto simp: newest_def Let_def parent_def)

lemma newest_max:
  assumes "0 < k" "k < length h" "parent k = i"
  shows "snd (h ! k) \<le> snd (h ! newest h i)"
  using assms parent_iff[of k i] by (auto simp: newest_def Let_def)

lemma newest_self: "snd (h ! i) \<le> snd (h ! newest h i)"
  by (auto simp: newest_def Let_def)

lemma siftDown_length [simp]: "length (siftDown h i) = length h"
  by (induction h i rule: siftDown.induct) (subst siftDown.simps, simp add: Let_def)

lemma siftUp_length [simp]: "length (siftUp h i) = length h"
  by (induction h i rule: siftUp.induct) (subst siftUp.simps, simp add: Let_def)

lemma siftDown_mset [simp]: "i < length h \<Longrightarrow> mset (siftDown h i) = mset h"
proof (induction h i rule: siftDown.induct)
  case (1 h i)
  then show ?case
    using newest_cases[of h i] by (subst siftDown.simps) (auto simp: Let_def)
qed

lemma siftUp_mset [simp]: "i < length h \<Longrightarrow> mset (siftUp h i) = mset h"
proof (induction h i rule: siftUp.induct)
  case (1 h i)
  then show ?case by (subst siftUp.simps) (auto simp: Let_def)
qed

lemma heap_down_done: "heap_down h i \<Longrightarrow> newest h i = i \<Longrightarrow> heap h"
  using newest_max[of _ h i] by (auto simp: heap_down_def heap_def)

lemma heap_down_step:
  assumes h: "heap_down h i" and i: "i < length h" and n: "newest h i \<noteq> i"
  shows "heap_down (swap h i (newest h i)) (newest h i)"
proof -
  define n where "n = newest h i"
  have n1: "i < n" "n < length h" "parent n = i"
    using assms newest_cases[of h i] newest_parent[of h i] by (auto simp: n_def)
  have "snd (swap h i n ! k) \<le> snd (swap h i n ! parent k)"
    if k: "0 < k" "k < length h" "parent k \<noteq> n" for k
  proof (cases "parent k = i")
    case True
    with k n1 newest_max[of k h i] newest_self[of h i] show ?thesis
      by (auto simp: nth_swap n_def[symmetric])
  next
    case False
    with k n1 have "k \<noteq> n" by auto
    with k n1 False h show ?thesis
      using parent_less[of k] by (auto simp: nth_swap heap_down_def)
  qed
  moreover have "snd (swap h i n ! k) \<le> snd (swap h i n ! parent n)"
    if k: "0 < k" "k < length h" "parent k = n" for k
  proof -
    have "parent k \<noteq> i" "k \<noteq> n" "k \<noteq> i" using k n1 parent_less[of k] by auto
    with k n1 h show ?thesis by (auto simp: nth_swap heap_down_def)
  qed
  ultimately show ?thesis by (simp add: heap_down_def n_def)
qed

lemma siftDown_heap: "heap_down h i \<Longrightarrow> i < length h \<Longrightarrow> heap (siftDown h i)"
proof (induction h i rule: siftDown.induct)
  case (1 h i)
  show ?case
  proof (cases "newest h i = i")
    case True
    with 1 show ?thesis by (subst siftDown.simps) (simp add: Let_def heap_down_done)
  next
    case False
    with 1 newest_cases[of h i] show ?thesis
      by (subst siftDown.simps) (simp add: Let_def heap_down_step)
  qed
qed

lemma heap_up_step:
  assumes h: "heap_up h i" and i: "0 < i" "i < length h" and lt: "snd (h ! parent i) < snd (h ! i)"
  shows "heap_up (swap h i (parent i)) (parent i)"
proof -
  let ?p = "parent i"
  have p: "?p < i" "?p < length h" using i by auto
  have "snd (swap h i ?p ! k) \<le> snd (swap h i ?p ! parent k)"
    if k: "0 < k" "k < length h" "k \<noteq> ?p" for k
  proof -
    consider "k = i" | "k \<noteq> i" "parent k = i" | "k \<noteq> i" "parent k = ?p" | "k \<noteq> i" "parent k \<noteq> i" "parent k \<noteq> ?p"
      by blast
    then show ?thesis
    proof cases
      case 1
      with i p lt show ?thesis by (auto simp: nth_swap)
    next
      case 2
      with k i p h show ?thesis by (auto simp: nth_swap heap_up_def)
    next
      case 3
      with k i p have "snd (h ! k) \<le> snd (h ! ?p)" using h by (force simp: heap_up_def)
      with 3 k i p lt show ?thesis by (auto simp: nth_swap)
    next
      case 4
      with k i p h show ?thesis using parent_less[of k] by (auto simp: nth_swap heap_up_def)
    qed
  qed
  moreover have "snd (swap h i ?p ! k) \<le> snd (swap h i ?p ! parent ?p)"
    if k: "0 < k" "k < length h" "parent k = ?p" "0 < ?p" for k
  proof -
    have pp: "parent ?p < ?p" using k by simp
    have gp: "snd (h ! ?p) \<le> snd (h ! parent ?p)" using h k p i by (auto simp: heap_up_def)
    show ?thesis
    proof (cases "k = i")
      case True
      with gp k i p pp show ?thesis by (auto simp: nth_swap)
    next
      case False
      then have "snd (h ! k) \<le> snd (h ! ?p)" using h k by (force simp: heap_up_def)
      moreover have "k \<noteq> ?p" using k parent_less[of k] by auto
      ultimately show ?thesis using gp False k i p pp by (auto simp: nth_swap)
    qed
  qed
  ultimately show ?thesis by (simp add: heap_up_def)
qed

lemma siftUp_heap: "heap_up h i \<Longrightarrow> i < length h \<Longrightarrow> heap (siftUp h i)"
proof (induction h i rule: siftUp.induct)
  case (1 h i)
  show ?case
  proof (cases "0 < i \<and> snd (h ! parent i) < snd (h ! i)")
    case True
    with 1 have "heap (siftUp (swap h i (parent i)) (parent i))"
      by (simp add: heap_up_step)
    with True show ?thesis by (subst siftUp.simps) (simp add: Let_def)
  next
    case False
    with 1(2) have "heap h"
      by (cases "i = 0") (auto simp: heap_def heap_up_def)
    with False show ?thesis by (subst siftUp.simps) (auto simp: Let_def)
  qed
qed

lemma heap_root: "heap h \<Longrightarrow> k < length h \<Longrightarrow> snd (h ! k) \<le> snd (h ! 0)"
proof (induction k rule: less_induct)
  case (less k)
  show ?case
  proof (cases "k = 0")
    case False
    then have "parent k < k" by simp
    with less False have "snd (h ! parent k) \<le> snd (h ! 0)" by simp
    with less.prems False show ?thesis by (force simp: heap_def)
  qed simp
qed


lemma heap_up_snoc:
  assumes "heap h" shows "heap_up (h @ [e]) (length h)"
proof -
  have "parent k < length h" "parent k \<noteq> length h" if "0 < k" "k < Suc (length h)" for k
    using that parent_less[of k] by linarith+
  with assms show ?thesis by (simp add: heap_def heap_up_def nth_append)
qed

lemma heap_down_root: "heap h \<Longrightarrow> heap_down (h[0 := e]) 0"
  by (auto simp: heap_def heap_down_def nth_list_update)

section \<open>The scan selects the oldest entries\<close>

text \<open>
  \<open>selects k es h\<close>: \<open>h\<close> holds the \<open>k\<close> oldest of the entries \<open>es\<close> (all of them when there are
  fewer), as a multiset, so equal timestamps are counted right.
\<close>

definition selects :: "nat \<Rightarrow> entry multiset \<Rightarrow> entry list \<Rightarrow> bool" where
  "selects k es h \<longleftrightarrow> length h = min k (size es) \<and> mset h \<subseteq># es
     \<and> (\<forall>x \<in># mset h. \<forall>y \<in># es - mset h. snd x \<le> snd y)"

lemma scanStep_heap:
  assumes "heap h" "0 < remove" "length h \<le> remove"
  shows "heap (scanStep remove e h)"
proof (cases "length h < remove")
  case True
  with assms show ?thesis by (simp add: scanStep_def siftUp_heap heap_up_snoc)
next
  case False
  with assms have "0 < length h" by simp
  with False assms show ?thesis by (simp add: scanStep_def siftDown_heap heap_down_root)
qed

lemma scanStep_selects:
  assumes heap: "heap h" and rem: "0 < remove" and sel: "selects remove es h"
  shows "selects remove (add_mset e es) (scanStep remove e h)"
proof (cases "length h < remove")
  case True
  then have "mset h = es"
    using sel by (auto simp: selects_def min_def split: if_splits) (metis size_mset subset_mset.le_imp_less_or_eq mset_subset_size order.irrefl)
  with True show ?thesis by (auto simp: selects_def scanStep_def)
next
  case False
  then have len: "length h = remove" "remove \<le> size es" and sub: "mset h \<subseteq># es"
    using sel by (auto simp: selects_def)
  obtain rest where es: "es = mset h + rest" using sub by (metis subset_mset.add_diff_inverse)
  have old: "snd x \<le> snd y" if "x \<in> set h" "y \<in># rest" for x y
    using sel that by (auto simp: selects_def es)
  have h0: "h ! 0 \<in> set h" "0 < length h" using len rem by auto
  have root: "snd x \<le> snd (h ! 0)" if "x \<in> set h" for x
    using heap_root[OF heap] that by (metis in_set_conv_nth)
  show ?thesis
  proof (cases "snd e < snd (h ! 0)")
    case True
    define h' where "h' = h[0 := e]"
    define M where "M = mset h - {#h ! 0#}"
    have hM: "mset h = add_mset (h ! 0) M" using h0 by (simp add: M_def)
    have m: "mset h' = add_mset e M" using h0 by (simp add: h'_def M_def mset_update)
    have rest': "add_mset e es - mset h' = add_mset (h ! 0) rest" by (simp add: m es hM)
    have sub': "mset h' \<subseteq># add_mset e es" by (simp add: m es hM subset_mset.add_increasing2)
    have "snd x \<le> snd y" if "x \<in># mset h'" "y \<in># add_mset (h ! 0) rest" for x y
    proof -
      have x: "x = e \<or> x \<in> set h" using that(1) hM by (auto simp: m simp flip: set_mset_mset)
      have "snd x \<le> snd (h ! 0)" using x root[of x] True by auto
      moreover have "snd (h ! 0) \<le> snd y" using that(2) old[OF h0(1), of y] by auto
      ultimately show ?thesis by simp
    qed
    moreover have "scanStep remove e h = siftDown h' 0" using False True by (simp add: scanStep_def h'_def)
    moreover have "mset (siftDown h' 0) = mset h'" "length (siftDown h' 0) = length h"
      using h0 by (simp_all add: h'_def)
    ultimately show ?thesis using sub' rest' len by (simp add: selects_def)
  next
    case F: False
    have "add_mset e es - mset h = add_mset e rest" by (simp add: es)
    moreover have "snd x \<le> snd e" if "x \<in> set h" for x using root[OF that] F by simp
    moreover have "mset h \<subseteq># add_mset e es" by (simp add: es flip: union_mset_add_mset_right)
    ultimately show ?thesis using False F len old by (auto simp: selects_def scanStep_def)
  qed
qed

lemma scan_selects:
  assumes "0 < remove" "heap h" "selects remove es0 h"
  shows "heap (fold (scanStep remove) es h) \<and> selects remove (mset es + es0) (fold (scanStep remove) es h)"
  using assms
proof (induction es arbitrary: h es0)
  case (Cons e es)
  have "length h \<le> remove" using Cons.prems by (simp add: selects_def)
  with Cons.IH[of "scanStep remove e h" "add_mset e es0"] Cons.prems show ?case
    by (simp add: scanStep_heap scanStep_selects)
qed simp

lemma oldestEntries_selects: "0 < remove \<Longrightarrow> selects remove (mset es) (oldestEntries remove es)"
  using scan_selects[of remove "[]" "{#}" es]
  by (simp add: oldestEntries_def heap_def selects_def)

end
