(* ===== verification/Memory_Storage.thy ===== *)
theory Memory_Storage
  imports Storage_Iface Evict_Heap
begin

text \<open>
  The in-process backend (\<^verbatim>\<open>storage_memory.go\<close>). The bucket map is an association list with
  distinct keys; a pointer to a bucket taken from the map is the bucket itself, written back
  after it is updated. What the runtime chooses is part of the state: \<open>rt_clock\<close> holds the
  results of the coming \<^verbatim>\<open>time.Now()\<close> calls, \<open>rt_orders\<close> the iteration orders of the coming
  map scans. Each operation is one step, as if its critical sections were not interrupted.
  Shown: every operation keeps the invariant, the map never exceeds its cap, an eviction
  removes exactly the oldest buckets whatever the iteration order, and the backend keeps the
  \<open>storage\<close> contract.
\<close>

type_synonym bucket_map = "(string \<times> TokenBucket) list"
type_synonym iter_order = "bucket_map \<Rightarrow> bucket_map"

definition defaultMaxBuckets :: int where "defaultMaxBuckets = 100000"

record memoryStorage =
  buckets :: bucket_map
  maxBuckets :: int
  stopped :: bool
  evictCounter :: "int option"
  rt_clock :: "gotime stream"
  rt_orders :: "iter_order stream"

definition newMemoryStorage :: "int \<Rightarrow> gotime stream \<Rightarrow> iter_order stream \<Rightarrow> memoryStorage" where
  "newMemoryStorage maxB clk ords =
     \<lparr>buckets = [], maxBuckets = (if maxB \<le> 0 then defaultMaxBuckets else maxB),
      stopped = False, evictCounter = None, rt_clock = clk, rt_orders = ords\<rparr>"

definition timeNow :: "memoryStorage \<Rightarrow> gotime \<times> memoryStorage" where
  "timeNow s = (shd (rt_clock s), s\<lparr>rt_clock := stl (rt_clock s)\<rparr>)"

definition bucketEntry :: "string \<times> TokenBucket \<Rightarrow> entry" where
  "bucketEntry kb = (fst kb, lastRefillTime (snd kb))"

definition evictOldestLocked :: "int \<Rightarrow> memoryStorage \<Rightarrow> memoryStorage" where
  "evictOldestLocked target s =
     (let target = (if target < 0 then 0 else target);
          remove = int (length (buckets s)) - target
      in if remove \<le> 0 then s
         else let h = oldestEntries (nat remove) (map bucketEntry (shd (rt_orders s) (buckets s)))
              in s\<lparr>buckets := fold (\<lambda>e. AList.delete (fst e)) h (buckets s),
                   evictCounter := map_option (\<lambda>c. c + int (length h)) (evictCounter s),
                   rt_orders := stl (rt_orders s)\<rparr>)"

definition getOrCreate :: "string \<Rightarrow> int \<Rightarrow> duration \<Rightarrow> memoryStorage \<Rightarrow> TokenBucket \<times> memoryStorage" where
  "getOrCreate key limit period s =
     (case map_of (buckets s) key of
        Some bucket \<Rightarrow> (bucket, s)
      | None \<Rightarrow>
          let s1 = (if maxBuckets s \<le> int (length (buckets s))
                    then evictOldestLocked (go_div (maxBuckets s * 9) 10) s else s);
              (now, s2) = timeNow s1;
              bucket = NewTokenBucket limit period now
          in (bucket, s2\<lparr>buckets := AList.update key bucket (buckets s2)\<rparr>))"

text \<open>Updating a bucket through its pointer updates the entry of the map that holds it.\<close>

definition putBucket :: "string \<Rightarrow> TokenBucket \<Rightarrow> memoryStorage \<Rightarrow> memoryStorage" where
  "putBucket key b s = s\<lparr>buckets := AList.update key b (buckets s)\<rparr>"

definition msAllowUpToN :: "memoryStorage \<Rightarrow> string \<Rightarrow> int \<Rightarrow> int \<Rightarrow> duration \<Rightarrow> int \<times> memoryStorage" where
  "msAllowUpToN s key n limit period =
     (if n \<le> 0 then (0, s)
      else let (bucket, s1) = getOrCreate key limit period s;
               (now, s2) = timeNow s1;
               (granted, bucket') = AllowUpToN now n bucket
           in (granted, putBucket key bucket' s2))"

definition msRefund :: "memoryStorage \<Rightarrow> string \<Rightarrow> int \<Rightarrow> int \<Rightarrow> duration \<Rightarrow> memoryStorage" where
  "msRefund s key n limit period =
     (if n \<le> 0 then s
      else let (bucket, s1) = getOrCreate key limit period s
           in putBucket key (Refund n bucket) s1)"

definition msAvailableTokens :: "memoryStorage \<Rightarrow> string \<Rightarrow> rat option \<times> memoryStorage" where
  "msAvailableTokens s key =
     (case map_of (buckets s) key of
        None \<Rightarrow> (None, s)
      | Some bucket \<Rightarrow>
          let (now, s1) = timeNow s; bucket' = refillLocked now bucket
          in (Some (tokens bucket'), putBucket key bucket' s1))"

definition msSetErrorCounter :: "int \<Rightarrow> memoryStorage \<Rightarrow> memoryStorage" where
  "msSetErrorCounter counter s = s"

definition msSetFailOpenCounter :: "int \<Rightarrow> memoryStorage \<Rightarrow> memoryStorage" where
  "msSetFailOpenCounter counter s = s"

definition msSetEvictionCounter :: "int \<Rightarrow> memoryStorage \<Rightarrow> memoryStorage" where
  "msSetEvictionCounter counter s = s\<lparr>evictCounter := Some counter\<rparr>"

definition bucketCount :: "memoryStorage \<Rightarrow> int" where
  "bucketCount s = int (length (buckets s))"

text \<open>\<^verbatim>\<open>closeOnce\<close> makes the close of the stop channel happen once.\<close>

definition msClose :: "memoryStorage \<Rightarrow> memoryStorage" where
  "msClose s = (if stopped s then s else s\<lparr>stopped := True\<rparr>)"

definition cleanup :: "duration \<Rightarrow> memoryStorage \<Rightarrow> memoryStorage" where
  "cleanup maxAge s =
     (let (now, s1) = timeNow s
      in s1\<lparr>buckets := filter (\<lambda>(key, bucket). \<not> maxAge < timeSub now (lastRefillTime bucket)) (buckets s1)\<rparr>)"

text \<open>
  The clean-up goroutine. Between two of its steps the pipelines use the storage: an event of the
  ticker carries what they did to it.
\<close>

definition cleanupLoop :: "duration \<Rightarrow> (memoryStorage \<Rightarrow> memoryStorage) option stream \<Rightarrow> memoryStorage \<Rightarrow> memoryStorage option" where
  "cleanupLoop maxAge evs s = selectLoop (\<lambda>others s. cleanup maxAge (others s)) evs s"

definition memoryOps :: "memoryStorage StorageOps" where
  "memoryOps =
     \<lparr>opAllowUpToN = msAllowUpToN, opRefund = msRefund, opAvailableTokens = msAvailableTokens,
      opSetErrorCounter = msSetErrorCounter, opSetEvictionCounter = msSetEvictionCounter,
      opSetFailOpenCounter = msSetFailOpenCounter, opClose = msClose, opName = (\<lambda>_. ''memory'')\<rparr>"

section \<open>Invariant\<close>

definition mono_clock :: "gotime stream \<Rightarrow> bool" where
  "mono_clock c \<longleftrightarrow> (\<forall>i. c !! i \<le> c !! Suc i)"

definition fair_orders :: "iter_order stream \<Rightarrow> bool" where
  "fair_orders os \<longleftrightarrow> (\<forall>i xs. mset ((os !! i) xs) = mset xs)"

definition bucket_ok :: "gotime \<Rightarrow> TokenBucket \<Rightarrow> bool" where
  "bucket_ok now b \<longleftrightarrow> tb_inv b \<and> lastRefillTime b \<le> now"

definition ms_inv :: "memoryStorage \<Rightarrow> bool" where
  "ms_inv s \<longleftrightarrow> distinct (map fst (buckets s)) \<and> 1 \<le> maxBuckets s
     \<and> bucketCount s \<le> maxBuckets s
     \<and> (\<forall>x \<in> set (buckets s). bucket_ok (shd (rt_clock s)) (snd x))
     \<and> mono_clock (rt_clock s) \<and> fair_orders (rt_orders s)"

lemma mono_clock_stl [simp]: "mono_clock c \<Longrightarrow> mono_clock (stl c)"
  by (simp add: mono_clock_def) (metis snth.simps(2))

lemma mono_clock_next: "mono_clock c \<Longrightarrow> shd c \<le> shd (stl c)"
  by (auto simp: mono_clock_def dest: spec[of _ 0])

lemma fair_orders_stl [simp]: "fair_orders os \<Longrightarrow> fair_orders (stl os)"
  by (simp add: fair_orders_def) (metis snth.simps(2))

lemma fair_orders_shd: "fair_orders os \<Longrightarrow> mset (shd os xs) = mset xs"
  by (auto simp: fair_orders_def dest: spec[of _ 0])

lemma bucket_ok_mono: "bucket_ok t b \<Longrightarrow> t \<le> t' \<Longrightarrow> bucket_ok t' b"
  by (auto simp: bucket_ok_def)

lemma newMemoryStorage_inv: "mono_clock clk \<Longrightarrow> fair_orders ords \<Longrightarrow> ms_inv (newMemoryStorage maxB clk ords)"
  by (auto simp: ms_inv_def newMemoryStorage_def defaultMaxBuckets_def bucketCount_def)

section \<open>Association lists as maps\<close>

lemma set_fold_delete: "set (fold (\<lambda>e. AList.delete (fst e)) h al) = {kb \<in> set al. fst kb \<notin> fst ` set h}"
proof (induction h arbitrary: al)
  case (Cons e h)
  have "set (AList.delete (fst e) al) = {kb \<in> set al. fst kb \<noteq> fst e}"
    by (auto simp: AList.delete_eq)
  with Cons show ?case by auto
qed simp

lemma distinct_fold_delete:
  "distinct (map fst al) \<Longrightarrow> distinct (map fst (fold (\<lambda>e. AList.delete (fst e)) h al))"
  by (induction h arbitrary: al) (simp_all add: AList.distinct_delete)

lemma distinct_sub_mset:
  assumes "mset xs \<subseteq># mset ys" "distinct ys" shows "distinct xs"
proof -
  obtain zs where "mset ys = mset xs + mset zs"
    using assms(1) by (metis ex_mset subset_mset.add_diff_inverse)
  then have "mset ys = mset (xs @ zs)" by simp
  with assms(2) have "distinct (xs @ zs)" using mset_eq_imp_distinct_iff by blast
  then show ?thesis by simp
qed

lemma card_keys: "distinct (map fst xs) \<Longrightarrow> card (fst ` set xs) = length xs"
  using distinct_card[of "map fst xs"] by simp

lemma length_fold_delete:
  assumes "distinct (map fst al)" "distinct (map fst h)" "fst ` set h \<subseteq> fst ` set al"
  shows "length (fold (\<lambda>e. AList.delete (fst e)) h al) = length al - length h"
proof -
  let ?al = "fold (\<lambda>e. AList.delete (fst e)) h al"
  have "fst ` set ?al = fst ` set al - fst ` set h" by (auto simp: set_fold_delete)
  then have "card (fst ` set ?al) = card (fst ` set al) - card (fst ` set h)"
    using assms(3) by (simp add: card_Diff_subset)
  then show ?thesis
    by (simp add: card_keys[OF assms(1)] card_keys[OF assms(2)]
        card_keys[OF distinct_fold_delete[OF assms(1)]])
qed

lemma ball_update:
  "\<forall>x \<in> set al. P (snd x) \<Longrightarrow> P v \<Longrightarrow> \<forall>x \<in> set (AList.update k v al). P (snd x)"
  by (induction al) auto

section \<open>Eviction\<close>

text \<open>
  What an eviction does, as a relation between the maps before and after: the entries kept
  are entries of the old map, \<open>keep\<close> of them, and nothing evicted is newer than anything kept.
\<close>

definition evicts_oldest :: "nat \<Rightarrow> bucket_map \<Rightarrow> bucket_map \<Rightarrow> bool" where
  "evicts_oldest keep old new \<longleftrightarrow> set new \<subseteq> set old \<and> length new = keep
     \<and> (\<forall>x \<in> set old - set new. \<forall>y \<in> set new. lastRefillTime (snd x) \<le> lastRefillTime (snd y))"

lemma delete_selected:
  assumes dist: "distinct (map fst bs)" and perm: "mset os = mset bs"
    and sel: "selects k (mset (map bucketEntry os)) h" and k: "k \<le> length bs"
  shows "evicts_oldest (length bs - k) bs (fold (\<lambda>e. AList.delete (fst e)) h bs)" "length h = k"
proof -
  let ?E = "mset (map bucketEntry bs)" and ?new = "fold (\<lambda>e. AList.delete (fst e)) h bs"
  have E: "mset (map bucketEntry os) = ?E" using perm by (simp add: mset_map)
  have "length os = length bs" using perm by (rule mset_eq_length)
  then show len: "length h = k" using sel k by (simp add: selects_def)
  have sub: "mset h \<subseteq># ?E" using sel unfolding selects_def E by blast
  have setsub: "set h \<subseteq> bucketEntry ` set bs" using set_mset_mono[OF sub] by simp
  have "mset (map fst h) \<subseteq># mset (map fst (map bucketEntry bs))"
    using image_mset_subseteq_mono[OF sub, of fst] by (simp only: mset_map)
  moreover have "map fst (map bucketEntry bs) = map fst bs" by (simp add: bucketEntry_def)
  ultimately have disth: "distinct (map fst h)"
    using dist by (simp only: distinct_sub_mset)
  have keys: "fst ` set h \<subseteq> fst ` set bs" using setsub by (force simp: bucketEntry_def)
  have inh: "bucketEntry x \<in> set h" if x: "x \<in> set bs" "fst x \<in> fst ` set h" for x
  proof -
    obtain e where e: "e \<in> set h" "fst e = fst x" using x(2) by force
    then obtain y where y: "y \<in> set bs" "e = bucketEntry y" using setsub by blast
    with e dist x(1) have "y = x"
      by (cases x, cases y) (auto simp: bucketEntry_def dest: eq_key_imp_eq_value)
    with e y show ?thesis by simp
  qed
  have notin: "bucketEntry y \<in># ?E - mset h" if "y \<in> set bs" "fst y \<notin> fst ` set h" for y
  proof -
    have "bucketEntry y \<notin> set h" using that(2) by (force simp: bucketEntry_def)
    then show ?thesis using that(1) by (simp add: in_diff_count count_mset_0_iff[THEN iffD2])
  qed
  have "lastRefillTime (snd x) \<le> lastRefillTime (snd y)"
    if "x \<in> set bs - set ?new" "y \<in> set ?new" for x y
  proof -
    have "bucketEntry x \<in># mset h" "bucketEntry y \<in># ?E - mset h"
      using that inh notin by (auto simp: set_fold_delete)
    then have "snd (bucketEntry x) \<le> snd (bucketEntry y)" using sel unfolding selects_def E by blast
    then show ?thesis by (simp add: bucketEntry_def)
  qed
  then show "evicts_oldest (length bs - k) bs ?new"
    using length_fold_delete[OF dist disth keys] len
    by (auto simp: evicts_oldest_def set_fold_delete)
qed


lemma evictOldestLocked_evicts:
  assumes inv: "distinct (map fst (buckets s))" "fair_orders (rt_orders s)" and t: "0 \<le> target"
    and more: "target < bucketCount s"
  shows "evicts_oldest (nat target) (buckets s) (buckets (evictOldestLocked target s))"
    and "evictCounter (evictOldestLocked target s)
      = map_option (\<lambda>c. c + (bucketCount s - target)) (evictCounter s)"
proof -
  let ?k = "nat (bucketCount s - target)"
  have k: "0 < ?k" "?k \<le> length (buckets s)" "length (buckets s) - ?k = nat target"
    using t more by (auto simp: bucketCount_def)
  note d = delete_selected[OF inv(1) fair_orders_shd[OF inv(2)] oldestEntries_selects[OF k(1)] k(2)]
  have eq: "evictOldestLocked target s = s\<lparr>
      buckets := fold (\<lambda>e. AList.delete (fst e))
        (oldestEntries ?k (map bucketEntry (shd (rt_orders s) (buckets s)))) (buckets s),
      evictCounter := map_option (\<lambda>c. c + int ?k) (evictCounter s),
      rt_orders := stl (rt_orders s)\<rparr>"
    using t more d(2) by (simp add: evictOldestLocked_def Let_def bucketCount_def)
  show "evicts_oldest (nat target) (buckets s) (buckets (evictOldestLocked target s))"
    using d(1) by (simp add: eq k(3))
  show "evictCounter (evictOldestLocked target s)
      = map_option (\<lambda>c. c + (bucketCount s - target)) (evictCounter s)"
    using more by (simp add: eq)
qed

lemma evictOldestLocked_simps [simp]:
  "maxBuckets (evictOldestLocked target s) = maxBuckets s"
  "rt_clock (evictOldestLocked target s) = rt_clock s"
  "stopped (evictOldestLocked target s) = stopped s"
  by (simp_all add: evictOldestLocked_def Let_def)

lemma evictOldestLocked_orders [simp]:
  "fair_orders (rt_orders s) \<Longrightarrow> fair_orders (rt_orders (evictOldestLocked target s))"
  by (simp add: evictOldestLocked_def Let_def)

lemma evictOldestLocked_distinct [simp]:
  "distinct (map fst (buckets s)) \<Longrightarrow> distinct (map fst (buckets (evictOldestLocked target s)))"
  by (simp add: evictOldestLocked_def Let_def distinct_fold_delete)

lemma evictOldestLocked_subset: "set (buckets (evictOldestLocked target s)) \<subseteq> set (buckets s)"
  by (auto simp: evictOldestLocked_def Let_def set_fold_delete)


section \<open>Every operation keeps the invariant\<close>

lemma ms_inv_bucket: "ms_inv s \<Longrightarrow> map_of (buckets s) key = Some b \<Longrightarrow> bucket_ok (shd (rt_clock s)) b"
  by (force simp: ms_inv_def dest: map_of_SomeD)

lemma timeNow_inv: "ms_inv s \<Longrightarrow> ms_inv (snd (timeNow s))"
  using mono_clock_next[of "rt_clock s"]
  by (auto simp: timeNow_def ms_inv_def bucketCount_def intro: bucket_ok_mono)

lemma putBucket_inv:
  "ms_inv s \<Longrightarrow> bucket_ok (shd (rt_clock s)) b \<Longrightarrow> key \<in> fst ` set (buckets s) \<Longrightarrow> ms_inv (putBucket key b s)"
  using ball_update[of "buckets s" "bucket_ok (shd (rt_clock s))" b key]
  by (simp add: putBucket_def ms_inv_def bucketCount_def length_update_key AList.distinct_update)

lemma insertBucket_inv:
  assumes "ms_inv s" "bucketCount s < maxBuckets s" "bucket_ok (shd (rt_clock s)) b"
  shows "ms_inv (s\<lparr>buckets := AList.update key b (buckets s)\<rparr>)"
  using assms ball_update[of "buckets s" "bucket_ok (shd (rt_clock s))" b key]
  by (simp add: ms_inv_def bucketCount_def length_update_key AList.distinct_update)

lemma evict_room:
  assumes inv: "ms_inv s" and full: "maxBuckets s \<le> bucketCount s"
  defines "s' \<equiv> evictOldestLocked (go_div (maxBuckets s * 9) 10) s"
  shows "ms_inv s'" "bucketCount s' < maxBuckets s'"
proof -
  let ?t = "go_div (maxBuckets s * 9) 10"
  have m: "1 \<le> maxBuckets s" using inv by (simp add: ms_inv_def)
  then have t: "0 \<le> ?t" "?t < maxBuckets s" by (simp_all add: pos_imp_zdiv_nonneg_iff)
  have "evicts_oldest (nat ?t) (buckets s) (buckets s')"
    unfolding s'_def using inv t full by (intro evictOldestLocked_evicts) (auto simp: ms_inv_def)
  then have len: "bucketCount s' = ?t" and sub: "set (buckets s') \<subseteq> set (buckets s)"
    using t by (auto simp: evicts_oldest_def bucketCount_def)
  then show "ms_inv s'" "bucketCount s' < maxBuckets s'"
    using inv t by (auto simp: ms_inv_def s'_def)
qed

lemma getOrCreate_inv:
  assumes inv: "ms_inv s" and b: "budget_ok (limit, period)"
  shows "ms_inv (snd (getOrCreate key limit period s))"
    and "map_of (buckets (snd (getOrCreate key limit period s))) key = Some (fst (getOrCreate key limit period s))"
    and "bucket_ok (shd (rt_clock (snd (getOrCreate key limit period s)))) (fst (getOrCreate key limit period s))"
proof -
  have "ms_inv (snd (getOrCreate key limit period s))
    \<and> map_of (buckets (snd (getOrCreate key limit period s))) key = Some (fst (getOrCreate key limit period s))
    \<and> bucket_ok (shd (rt_clock (snd (getOrCreate key limit period s)))) (fst (getOrCreate key limit period s))"
  proof (cases "map_of (buckets s) key")
    case None
    define s1 where "s1 = (if maxBuckets s \<le> bucketCount s
      then evictOldestLocked (go_div (maxBuckets s * 9) 10) s else s)"
    define s2 where "s2 = snd (timeNow s1)"
    define nb where "nb = NewTokenBucket limit period (shd (rt_clock s1))"
    have s1: "ms_inv s1" "bucketCount s1 < maxBuckets s1"
      using inv evict_room[OF inv] by (auto simp: s1_def)
    then have s2: "ms_inv s2" "bucketCount s2 < maxBuckets s2"
      using timeNow_inv[OF s1(1)] by (simp_all add: s2_def timeNow_def bucketCount_def)
    have "shd (rt_clock s1) \<le> shd (rt_clock s2)"
      using s1(1) by (simp add: s2_def timeNow_def ms_inv_def mono_clock_next)
    moreover have "tb_inv nb"
      using b unfolding nb_def by (intro NewTokenBucket_inv) (auto simp: budget_ok_def)
    ultimately have "bucket_ok (shd (rt_clock s2)) nb"
      by (simp add: bucket_ok_def nb_def NewTokenBucket_def)
    moreover have "getOrCreate key limit period s = (nb, s2\<lparr>buckets := AList.update key nb (buckets s2)\<rparr>)"
      using None by (simp add: getOrCreate_def Let_def s1_def s2_def nb_def timeNow_def bucketCount_def)
    ultimately show ?thesis using s2 by (simp add: insertBucket_inv AList.update_conv')
  next
    case (Some bk)
    with ms_inv_bucket[OF inv Some] inv show ?thesis by (simp add: getOrCreate_def)
  qed
  then show "ms_inv (snd (getOrCreate key limit period s))"
    "map_of (buckets (snd (getOrCreate key limit period s))) key = Some (fst (getOrCreate key limit period s))"
    "bucket_ok (shd (rt_clock (snd (getOrCreate key limit period s)))) (fst (getOrCreate key limit period s))"
    by blast+
qed

lemma map_of_key: "map_of al k = Some v \<Longrightarrow> k \<in> fst ` set al"
  by (force dest: map_of_SomeD)

lemma AllowUpToN_ok:
  "bucket_ok now b \<Longrightarrow> bucket_ok now (snd (AllowUpToN now n b))"
  by (auto simp: bucket_ok_def AllowUpToN_inv)

lemma msAllowUpToN_inv:
  assumes inv: "ms_inv s" and b: "budget_ok (limit, period)"
  shows "ms_inv (snd (msAllowUpToN s key n limit period))"
    and "0 \<le> fst (msAllowUpToN s key n limit period) \<and> fst (msAllowUpToN s key n limit period) \<le> max 0 n"
proof -
  obtain bk s1 where g: "getOrCreate key limit period s = (bk, s1)" by force
  define now where "now = shd (rt_clock s1)"
  define s2 where "s2 = snd (timeNow s1)"
  note goc = getOrCreate_inv[OF inv b, of key, unfolded g fst_conv snd_conv]
  have ok: "bucket_ok now bk" using goc by (simp add: now_def)
  have s2: "ms_inv s2" unfolding s2_def using goc(1) by (rule timeNow_inv)
  have "now \<le> shd (rt_clock s2)"
    using goc(1) by (simp add: now_def s2_def timeNow_def ms_inv_def mono_clock_next)
  then have "bucket_ok (shd (rt_clock s2)) (snd (AllowUpToN now n bk))"
    using bucket_ok_mono[OF AllowUpToN_ok[OF ok]] by blast
  moreover have "key \<in> fst ` set (buckets s2)"
    using map_of_key[OF goc(2)] by (simp add: s2_def timeNow_def)
  ultimately have "ms_inv (putBucket key (snd (AllowUpToN now n bk)) s2)"
    using s2 by (intro putBucket_inv)
  then show "ms_inv (snd (msAllowUpToN s key n limit period))"
    using inv by (simp add: msAllowUpToN_def g timeNow_def now_def s2_def split_beta)
  have "0 \<le> fst (AllowUpToN now n bk) \<and> fst (AllowUpToN now n bk) \<le> max 0 n"
    using ok by (intro AllowUpToN_range) (auto simp: bucket_ok_def)
  then show "0 \<le> fst (msAllowUpToN s key n limit period) \<and> fst (msAllowUpToN s key n limit period) \<le> max 0 n"
    by (auto simp: msAllowUpToN_def g timeNow_def now_def split_beta)
qed

lemma msRefund_inv:
  assumes inv: "ms_inv s" and b: "budget_ok (limit, period)"
  shows "ms_inv (msRefund s key n limit period)"
proof -
  obtain bk s1 where g: "getOrCreate key limit period s = (bk, s1)" by force
  note goc = getOrCreate_inv[OF inv b, of key, unfolded g fst_conv snd_conv]
  have "bucket_ok (shd (rt_clock s1)) (Refund n bk)"
    using goc(3) by (simp add: bucket_ok_def Refund_inv)
  with goc have "ms_inv (putBucket key (Refund n bk) s1)"
    by (intro putBucket_inv map_of_key)
  with inv show ?thesis by (simp add: msRefund_def g)
qed

lemma msAvailableTokens_inv:
  assumes inv: "ms_inv s" shows "ms_inv (snd (msAvailableTokens s key))"
proof (cases "map_of (buckets s) key")
  case (Some bk)
  define now where "now = shd (rt_clock s)"
  define s2 where "s2 = snd (timeNow s)"
  have ok: "bucket_ok now bk" using ms_inv_bucket[OF inv Some] by (simp add: now_def)
  have "now \<le> shd (rt_clock s2)"
    using inv by (simp add: now_def s2_def timeNow_def ms_inv_def mono_clock_next)
  then have "bucket_ok (shd (rt_clock s2)) (refillLocked now bk)"
    using ok by (auto simp: bucket_ok_def refillLocked_inv)
  moreover have "key \<in> fst ` set (buckets s2)" using map_of_key[OF Some] by (simp add: s2_def timeNow_def)
  ultimately have "ms_inv (putBucket key (refillLocked now bk) s2)"
    using timeNow_inv[OF inv] by (intro putBucket_inv) (simp_all add: s2_def)
  then show ?thesis using Some by (simp add: msAvailableTokens_def timeNow_def now_def s2_def Let_def)
qed (simp add: msAvailableTokens_def inv)

lemma cleanup_inv:
  assumes "ms_inv s" shows "ms_inv (cleanup maxAge s)"
proof -
  have "int (length (filter P (buckets s))) \<le> bucketCount s" for P
    by (simp add: bucketCount_def length_filter_le)
  then have "int (length (filter P (buckets s))) \<le> maxBuckets s" for P
    using assms order_trans by (fastforce simp: ms_inv_def)
  with timeNow_inv[OF assms] show ?thesis
    by (auto simp: cleanup_def timeNow_def ms_inv_def bucketCount_def distinct_map_filter)
qed

lemma msClose_inv: "ms_inv s \<Longrightarrow> ms_inv (msClose s)"
  by (simp add: msClose_def ms_inv_def bucketCount_def)

lemma msSetEvictionCounter_inv: "ms_inv s \<Longrightarrow> ms_inv (msSetEvictionCounter c s)"
  by (simp add: msSetEvictionCounter_def ms_inv_def bucketCount_def)

lemmas ms_ops_inv =
  msAllowUpToN_inv(1) msRefund_inv msAvailableTokens_inv cleanup_inv msClose_inv msSetEvictionCounter_inv

interpretation mem: storage memoryOps ms_inv
  by unfold_locales
    (simp_all add: memoryOps_def msAllowUpToN_inv msRefund_inv msAvailableTokens_inv msClose_inv
      msSetEvictionCounter_inv msSetErrorCounter_def msSetFailOpenCounter_def)


section \<open>Reachable states\<close>

text \<open>
  The backend as the processor drives it: any sequence of the operations of the pipelines and
  of the ticks of the clean-up goroutine, which ends when the stop channel is closed.
\<close>

inductive ms_step :: "memoryStorage \<Rightarrow> memoryStorage \<Rightarrow> bool" where
  allow: "budget_ok (limit, period) \<Longrightarrow> ms_step s (snd (msAllowUpToN s key n limit period))"
| refund: "budget_ok (limit, period) \<Longrightarrow> ms_step s (msRefund s key n limit period)"
| available: "ms_step s (snd (msAvailableTokens s key))"
| setEvictionCounter: "ms_step s (msSetEvictionCounter c s)"
| cleanupTick: "\<not> stopped s \<Longrightarrow> ms_step s (cleanup maxAge s)"
| close: "ms_step s (msClose s)"

inductive ms_reachable :: "memoryStorage \<Rightarrow> memoryStorage \<Rightarrow> bool" for s0 where
  start: "ms_reachable s0 s0"
| step: "ms_reachable s0 s \<Longrightarrow> ms_step s t \<Longrightarrow> ms_reachable s0 t"

lemma ms_step_inv: "ms_step s t \<Longrightarrow> ms_inv s \<Longrightarrow> ms_inv t"
  by (induction rule: ms_step.induct) (simp_all add: ms_ops_inv)

lemma ms_reachable_inv: "ms_reachable s0 s \<Longrightarrow> ms_inv s0 \<Longrightarrow> ms_inv s"
  by (induction rule: ms_reachable.induct) (auto intro: ms_step_inv)

lemma getOrCreate_maxBuckets [simp]: "maxBuckets (snd (getOrCreate key limit period s)) = maxBuckets s"
  by (simp add: getOrCreate_def timeNow_def Let_def split: option.split)

lemma ms_step_maxBuckets: "ms_step s t \<Longrightarrow> maxBuckets t = maxBuckets s"
  by (induction rule: ms_step.induct)
    (auto simp: msAllowUpToN_def msRefund_def msAvailableTokens_def msSetEvictionCounter_def cleanup_def
      msClose_def timeNow_def putBucket_def split_beta Let_def split: option.split)

lemma ms_reachable_maxBuckets: "ms_reachable s0 s \<Longrightarrow> maxBuckets s = maxBuckets s0"
  by (induction rule: ms_reachable.induct) (simp_all add: ms_step_maxBuckets)

section \<open>Operations on a bucket that exists\<close>

lemma msAllowUpToN_present:
  assumes "map_of (buckets s) key = Some b" "0 < n"
  shows "msAllowUpToN s key n limit period =
    (fst (AllowUpToN (shd (rt_clock s)) n b),
     putBucket key (snd (AllowUpToN (shd (rt_clock s)) n b)) (s\<lparr>rt_clock := stl (rt_clock s)\<rparr>))"
  using assms by (simp add: msAllowUpToN_def getOrCreate_def timeNow_def split_beta Let_def)

lemma msRefund_present:
  "map_of (buckets s) key = Some b \<Longrightarrow> 0 < n \<Longrightarrow> msRefund s key n limit period = putBucket key (Refund n b) s"
  by (simp add: msRefund_def getOrCreate_def)

lemma putBucket_simps [simp]:
  "rt_clock (putBucket key b s) = rt_clock s" "maxBuckets (putBucket key b s) = maxBuckets s"
  "map_of (buckets (putBucket key b s)) = (map_of (buckets s))(key \<mapsto> b)"
  by (simp_all add: putBucket_def AList.update_conv')

section \<open>Properties\<close>

lemma constant_runtime [simp]: "mono_clock (sconst t)" "fair_orders (sconst (\<lambda>xs. xs))"
  by (simp_all add: mono_clock_def fair_orders_def)

text \<open>
  C4. When a new key arrives at a full map, the buckets evicted are exactly the least recently
  used ones, whatever order the runtime iterates the map in: ninety per cent of the cap stay,
  nothing evicted is fresher than anything kept, the counter grows by the number evicted, and
  the new key gets a full bucket.
\<close>

theorem eviction_removes_oldest:
  assumes inv: "ms_inv s" and new: "map_of (buckets s) key = None" and full: "maxBuckets s \<le> bucketCount s"
  shows "\<exists>kept. evicts_oldest (nat (maxBuckets s * 9 div 10)) (buckets s) kept
    \<and> buckets (snd (getOrCreate key limit period s))
        = AList.update key (NewTokenBucket limit period (shd (rt_clock s))) kept
    \<and> evictCounter (snd (getOrCreate key limit period s))
        = map_option (\<lambda>c. c + (bucketCount s - maxBuckets s * 9 div 10)) (evictCounter s)"
proof -
  have pos: "1 \<le> maxBuckets s" using inv by (simp add: ms_inv_def)
  then have t: "0 \<le> maxBuckets s * 9 div 10" "maxBuckets s * 9 div 10 < bucketCount s" using full by auto
  have e: "go_div (maxBuckets s * 9) 10 = maxBuckets s * 9 div 10" using pos by simp
  note ev = evictOldestLocked_evicts[OF _ _ t]
  have "evicts_oldest (nat (maxBuckets s * 9 div 10)) (buckets s)
      (buckets (evictOldestLocked (maxBuckets s * 9 div 10) s))"
    using ev(1) inv by (simp add: ms_inv_def)
  moreover have "evictCounter (evictOldestLocked (maxBuckets s * 9 div 10) s)
      = map_option (\<lambda>c. c + (bucketCount s - maxBuckets s * 9 div 10)) (evictCounter s)"
    using ev(2) inv by (simp add: ms_inv_def)
  ultimately show ?thesis
    using new full
    by (intro exI[of _ "buckets (evictOldestLocked (maxBuckets s * 9 div 10) s)"])
      (simp add: getOrCreate_def timeNow_def Let_def bucketCount_def e)
qed

theorem eviction_removes_oldest_witness:
  "let s = (newMemoryStorage 2 (sconst 9) (sconst (\<lambda>xs. xs)))\<lparr>buckets :=
       [(''a'', NewTokenBucket 5 Second 4), (''b'', NewTokenBucket 5 Second 3)], evictCounter := Some 0\<rparr>
   in evictCounter (snd (getOrCreate ''c'' 5 Second s)) = Some 1"
proof -
  define s where "s = (newMemoryStorage 2 (sconst 9) (sconst (\<lambda>xs. xs)))\<lparr>buckets :=
       [(''a'', NewTokenBucket 5 Second 4), (''b'', NewTokenBucket 5 Second 3)], evictCounter := Some 0\<rparr>"
  have "tb_inv (NewTokenBucket 5 Second t)" for t by (rule NewTokenBucket_inv) (simp_all add: limit_ok_def)
  then have inv: "ms_inv s"
    by (simp add: s_def ms_inv_def newMemoryStorage_def bucketCount_def bucket_ok_def) (simp add: NewTokenBucket_def)
  show ?thesis
    using eviction_removes_oldest[OF inv, of "''c''" 5 Second] unfolding s_def[symmetric] Let_def
    by (auto simp: s_def newMemoryStorage_def bucketCount_def)
qed

text \<open>
  C5. In every state the backend can reach, by any sequence of its operations and clean-up
  ticks, the number of buckets stays within the configured cap, every key has one bucket, and
  every balance is between zero and its capacity.
\<close>

theorem memory_storage_bounded:
  assumes "ms_reachable (newMemoryStorage maxB clk ords) s" "mono_clock clk" "fair_orders ords"
  shows "bucketCount s \<le> (if maxB \<le> 0 then 100000 else maxB) \<and> distinct (map fst (buckets s))
    \<and> (\<forall>(key, b) \<in> set (buckets s). 0 \<le> tokens b \<and> tokens b \<le> maxTokens b)"
proof -
  have "ms_inv s" using assms by (auto intro: ms_reachable_inv newMemoryStorage_inv)
  moreover have "maxBuckets s = (if maxB \<le> 0 then 100000 else maxB)"
    using ms_reachable_maxBuckets[OF assms(1)] by (simp add: newMemoryStorage_def defaultMaxBuckets_def)
  ultimately show ?thesis by (auto simp: ms_inv_def bucket_ok_def tb_inv_def)
qed

theorem memory_storage_bounded_witness:
  "let s = snd (msAllowUpToN (newMemoryStorage 1 (sconst 0) (sconst (\<lambda>xs. xs))) ''a'' 3 5 Second)
   in buckets s = [(''a'', (NewTokenBucket 5 Second 0)\<lparr>tokens := 2\<rparr>)] \<and> bucketCount s \<le> 1"
proof -
  let ?s0 = "newMemoryStorage 1 (sconst 0) (sconst (\<lambda>xs. xs))"
  have "ms_step ?s0 (snd (msAllowUpToN ?s0 ''a'' 3 5 Second))"
    by (rule ms_step.allow) (simp add: budget_ok_def limit_ok_def)
  then have "ms_reachable ?s0 (snd (msAllowUpToN ?s0 ''a'' 3 5 Second))"
    by (blast intro: ms_reachable.intros)
  then have "bucketCount (snd (msAllowUpToN ?s0 ''a'' 3 5 Second)) \<le> 1"
    using memory_storage_bounded by fastforce
  moreover have "buckets (snd (msAllowUpToN ?s0 ''a'' 3 5 Second)) = [(''a'', (NewTokenBucket 5 Second 0)\<lparr>tokens := 2\<rparr>)]"
    by (simp add: msAllowUpToN_def getOrCreate_def newMemoryStorage_def timeNow_def putBucket_def tb_eval)
  ultimately show ?thesis by simp
qed

end
