(* ===== verification/Rate_Limiter.thy ===== *)
theory Rate_Limiter
  imports Rl_Config Memory_Storage
begin

text \<open>
  The rate limiter of \<^verbatim>\<open>ratelimiter.go\<close> over any storage backend: the per-key budget and the
  optional global budget, with the refunds that keep their accounts equal. Lemmas that hold
  for every backend are proved in the locale \<open>storage\<close>; on the in-process backend the exact
  accounting is proved: a denied all-or-nothing request leaves both buckets as a mere refill
  would, and the global bucket is charged exactly what the keys were granted.
\<close>

definition globalKey :: string where "globalKey = ''__global__''"

record RateLimiter =
  config :: Config
  hasGlobal :: bool

definition configHasGlobal :: "Config \<Rightarrow> int \<times> bool" where
  "configHasGlobal cfg =
     (if 0 < GlobalRequestsPerSecond cfg \<or> 0 < GlobalRequestsPerMinute cfg then (1, True) else (0, False))"

definition newRateLimiterWithStorage :: "Config \<Rightarrow> RateLimiter" where
  "newRateLimiterWithStorage cfg = \<lparr>config = cfg, hasGlobal = snd (configHasGlobal cfg)\<rparr>"

text \<open>\<^verbatim>\<open>NewRateLimiter\<close> brings its own in-process storage, with the default cap.\<close>

definition NewRateLimiter :: "Config \<Rightarrow> gotime stream \<Rightarrow> iter_order stream \<Rightarrow> RateLimiter \<times> memoryStorage" where
  "NewRateLimiter cfg clk ords = (newRateLimiterWithStorage cfg, newMemoryStorage 0 clk ords)"

definition AllowUpToNCtx ::
  "(f64 \<Rightarrow> int) \<Rightarrow> 'st StorageOps \<Rightarrow> RateLimiter \<Rightarrow> 'st \<Rightarrow> string \<Rightarrow> int \<Rightarrow> int \<times> 'st" where
  "AllowUpToNCtx cvt S rl st key n =
     (if n \<le> 0 then (0, st)
      else let (gLimit, gPeriod) = GlobalLimit (config rl);
               (globalGranted, st1) =
                 (if hasGlobal rl then opAllowUpToN S st globalKey n gLimit gPeriod else (n, st))
           in if hasGlobal rl \<and> globalGranted = 0 then (0, st1)
              else let (keyLimit, keyPeriod) = GetLimit cvt (config rl) key;
                       (keyGranted, st2) = opAllowUpToN S st1 key globalGranted keyLimit keyPeriod;
                       st3 = (if hasGlobal rl \<and> keyGranted < globalGranted
                              then opRefund S st2 globalKey (globalGranted - keyGranted) gLimit gPeriod
                              else st2)
                   in (keyGranted, st3))"

definition AllowNCtx ::
  "(f64 \<Rightarrow> int) \<Rightarrow> 'st StorageOps \<Rightarrow> RateLimiter \<Rightarrow> 'st \<Rightarrow> string \<Rightarrow> int \<Rightarrow> bool \<times> 'st" where
  "AllowNCtx cvt S rl st key n =
     (if n \<le> 0 then (True, st)
      else let (granted, st1) = AllowUpToNCtx cvt S rl st key n
           in if granted = n then (True, st1)
              else if 0 < granted then
                let (keyLimit, keyPeriod) = GetLimit cvt (config rl) key;
                    (gLimit, gPeriod) = GlobalLimit (config rl);
                    st2 = opRefund S st1 key granted keyLimit keyPeriod;
                    st3 = (if hasGlobal rl then opRefund S st2 globalKey granted gLimit gPeriod else st2)
                in (False, st3)
              else (False, st1))"

definition rlAllowN :: "(f64 \<Rightarrow> int) \<Rightarrow> 'st StorageOps \<Rightarrow> RateLimiter \<Rightarrow> 'st \<Rightarrow> string \<Rightarrow> int \<Rightarrow> bool \<times> 'st" where
  "rlAllowN cvt S rl st key n = AllowNCtx cvt S rl st key n"

definition rlAllow :: "(f64 \<Rightarrow> int) \<Rightarrow> 'st StorageOps \<Rightarrow> RateLimiter \<Rightarrow> 'st \<Rightarrow> string \<Rightarrow> bool \<times> 'st" where
  "rlAllow cvt S rl st key = rlAllowN cvt S rl st key 1"

definition rlAllowUpToN :: "(f64 \<Rightarrow> int) \<Rightarrow> 'st StorageOps \<Rightarrow> RateLimiter \<Rightarrow> 'st \<Rightarrow> string \<Rightarrow> int \<Rightarrow> int \<times> 'st" where
  "rlAllowUpToN cvt S rl st key n = AllowUpToNCtx cvt S rl st key n"

definition rlClose :: "'st StorageOps \<Rightarrow> 'st \<Rightarrow> 'st" where
  "rlClose S st = opClose S st"

section \<open>For every backend\<close>

text \<open>The limits the limiter hands to the storage are ones a bucket can be built from.\<close>

definition budgets_ok :: "(f64 \<Rightarrow> int) \<Rightarrow> RateLimiter \<Rightarrow> string \<Rightarrow> bool" where
  "budgets_ok cvt rl key \<longleftrightarrow> budget_ok (GetLimit cvt (config rl) key)
     \<and> (hasGlobal rl \<longrightarrow> budget_ok (GlobalLimit (config rl)))"

context storage
begin

lemma AllowUpToNCtx_range:
  assumes inv: "inv st" and b: "budgets_ok cvt rl key"
  shows "0 \<le> fst (AllowUpToNCtx cvt S rl st key n)
       \<and> fst (AllowUpToNCtx cvt S rl st key n) \<le> max 0 n
       \<and> inv (snd (AllowUpToNCtx cvt S rl st key n))"
proof (cases "n \<le> 0")
  case False
  obtain gl gp where g: "GlobalLimit (config rl) = (gl, gp)" by force
  obtain kl kp where k: "GetLimit cvt (config rl) key = (kl, kp)" by force
  define r1 where "r1 = (if hasGlobal rl then opAllowUpToN S st globalKey n gl gp else (n, st))"
  define r2 where "r2 = opAllowUpToN S (snd r1) key (fst r1) kl kp"
  have r1: "0 \<le> fst r1" "fst r1 \<le> n" "inv (snd r1)"
    using False inv b allow_range[of st gl gp globalKey n] allow_inv[of st gl gp]
    by (auto simp: r1_def budgets_ok_def g)
  have r2: "0 \<le> fst r2" "fst r2 \<le> fst r1" "inv (snd r2)"
    using r1 b allow_range[of "snd r1" kl kp key "fst r1"] allow_inv[of "snd r1" kl kp]
    by (auto simp: r2_def budgets_ok_def k)
  have "hasGlobal rl \<Longrightarrow> inv (opRefund S (snd r2) globalKey m gl gp)" for m
    using r2 b by (intro refund_inv) (auto simp: budgets_ok_def g)
  moreover have "AllowUpToNCtx cvt S rl st key n =
    (if hasGlobal rl \<and> fst r1 = 0 then (0, snd r1)
     else (fst r2, if hasGlobal rl \<and> fst r2 < fst r1
                   then opRefund S (snd r2) globalKey (fst r1 - fst r2) gl gp else snd r2))"
    using False by (simp add: AllowUpToNCtx_def Let_def g k split_beta r1_def r2_def)
  ultimately show ?thesis using False r1 r2 by auto
qed (simp add: AllowUpToNCtx_def inv)

lemma AllowNCtx_inv:
  assumes inv: "inv st" and b: "budgets_ok cvt rl key"
  shows "inv (snd (AllowNCtx cvt S rl st key n))"
proof -
  obtain g st1 where r: "AllowUpToNCtx cvt S rl st key n = (g, st1)" by force
  have st1: "inv st1" using AllowUpToNCtx_range[OF inv b, of n] by (simp add: r)
  obtain gl gp where gl: "GlobalLimit (config rl) = (gl, gp)" by force
  obtain kl kp where k: "GetLimit cvt (config rl) key = (kl, kp)" by force
  have st2: "inv (opRefund S st1 key g kl kp)"
    using st1 b by (intro refund_inv) (auto simp: budgets_ok_def k)
  moreover have "hasGlobal rl \<Longrightarrow> inv (opRefund S (opRefund S st1 key g kl kp) globalKey g gl gp)"
    using b refund_inv[OF st2, of gl gp] by (auto simp: budgets_ok_def gl)
  ultimately show ?thesis using inv st1 by (simp add: AllowNCtx_def r k gl Let_def)
qed

lemma AllowNCtx_all_or_nothing:
  "0 < n \<Longrightarrow> fst (AllowNCtx cvt S rl st key n) \<longleftrightarrow> fst (AllowUpToNCtx cvt S rl st key n) = n"
  by (simp add: AllowNCtx_def split_beta Let_def)

end


section \<open>Exact accounting on the in-process backend\<close>

text \<open>
  Charging a bucket: refill it at \<open>now\<close>, then take \<open>g\<close> whole tokens out of it.
\<close>

definition charged :: "gotime \<Rightarrow> int \<Rightarrow> TokenBucket \<Rightarrow> TokenBucket" where
  "charged now g b = (let b' = refillLocked now b in b'\<lparr>tokens := tokens b' - of_int g\<rparr>)"

lemma charged_0: "charged now 0 b = refillLocked now b"
  by (simp add: charged_def Let_def)

lemma AllowUpToN_charged:
  assumes "bucket_ok now b" "0 < n"
  obtains g where "AllowUpToN now n b = (g, charged now g b)" "0 \<le> g" "g \<le> n"
    "of_int g \<le> tokens (refillLocked now b)"
proof -
  have "tb_inv b" "lastRefillTime b \<le> now" using assms by (auto simp: bucket_ok_def)
  from AllowUpToN_cases[OF this assms(2)] obtain g where
    "AllowUpToN now n b = (g, (refillLocked now b)\<lparr>tokens := tokens (refillLocked now b) - of_int g\<rparr>)"
    "0 \<le> g" "g \<le> n" "of_int g \<le> tokens (refillLocked now b)" by blast
  then show ?thesis by (intro that[of g]) (simp_all add: charged_def Let_def)
qed

text \<open>A refund after a charge undoes exactly that part of the charge.\<close>

lemma Refund_charged:
  assumes b: "bucket_ok now b" and g: "0 \<le> k" "k \<le> g" "of_int g \<le> tokens (refillLocked now b)"
  shows "Refund (g - k) (charged now g b) = charged now k b"
proof -
  let ?r = "refillLocked now b"
  have r: "tb_inv ?r" using b by (auto simp: bucket_ok_def intro: refillLocked_inv)
  have kg: "(of_int k :: rat) \<le> of_int g" using g(2) by simp
  then have "of_int k \<le> tokens ?r" using g(3) by linarith
  then have c: "tb_inv (charged now k b)"
    using tb_inv_take[OF r g(1)] by (simp add: charged_def Let_def)
  have "charged now g b = (charged now k b)\<lparr>tokens := tokens (charged now k b) - of_int (g - k)\<rparr>"
    by (simp add: charged_def Let_def)
  moreover have "of_int (g - k) \<le> tokens (charged now k b)"
    using g(3) by (simp add: charged_def Let_def)
  ultimately show ?thesis using Refund_take[OF c, of "g - k"] g(2) by simp
qed

lemma Refund_charged_all:
  "bucket_ok now b \<Longrightarrow> 0 \<le> g \<Longrightarrow> of_int g \<le> tokens (refillLocked now b) \<Longrightarrow>
   Refund g (charged now g b) = refillLocked now b"
  using Refund_charged[of now b 0 g] by (simp add: charged_0)


text \<open>A new key fits without an eviction when the map is not full; then no other bucket changes.\<close>

definition bucketKeys :: "memoryStorage \<Rightarrow> string set" where
  "bucketKeys s = fst ` set (buckets s)"

definition fits :: "string \<Rightarrow> memoryStorage \<Rightarrow> bool" where
  "fits key s \<longleftrightarrow> key \<in> bucketKeys s \<or> bucketCount s < maxBuckets s"

lemma getOrCreate_other:
  assumes "fits key s" "k \<noteq> key"
  shows "map_of (buckets (snd (getOrCreate key limit period s))) k = map_of (buckets s) k"
  using assms
  by (auto simp: fits_def bucketKeys_def getOrCreate_def timeNow_def Let_def bucketCount_def AList.update_conv'
      split: option.split dest: weak_map_of_SomeI)

lemma getOrCreate_keys:
  "bucketKeys (snd (getOrCreate key limit period s)) \<subseteq> insert key (bucketKeys s)"
  using evictOldestLocked_subset[of "go_div (maxBuckets s * 9) 10" s]
  by (auto simp: getOrCreate_def timeNow_def Let_def bucketKeys_def AList.dom_update split: option.split)

lemma putBucket_keys: "bucketKeys (putBucket key b s) = insert key (bucketKeys s)"
  by (simp add: bucketKeys_def putBucket_def AList.dom_update)

lemma msAllowUpToN_other:
  "fits key s \<Longrightarrow> k \<noteq> key \<Longrightarrow>
   map_of (buckets (snd (msAllowUpToN s key n limit period))) k = map_of (buckets s) k"
  using getOrCreate_other[of key s k limit period]
  by (simp add: msAllowUpToN_def timeNow_def split_beta Let_def)

lemma msAllowUpToN_keys:
  "bucketKeys (snd (msAllowUpToN s key n limit period)) \<subseteq> insert key (bucketKeys s)"
  using getOrCreate_keys[of key limit period s] putBucket_keys
  by (auto simp: msAllowUpToN_def timeNow_def split_beta Let_def bucketKeys_def putBucket_def AList.dom_update)

lemma msRefund_keys: "bucketKeys (msRefund s key n limit period) \<subseteq> insert key (bucketKeys s)"
  using getOrCreate_keys[of key limit period s]
  by (auto simp: msRefund_def split_beta Let_def bucketKeys_def putBucket_def AList.dom_update)

lemma getOrCreate_keys_fit:
  "fits key s \<Longrightarrow> bucketKeys (snd (getOrCreate key limit period s)) = insert key (bucketKeys s)"
proof (cases "map_of (buckets s) key")
  case None
  then have "key \<notin> fst ` set (buckets s)" by (simp add: map_of_eq_None_iff)
  then show "fits key s \<Longrightarrow> ?thesis" using None
    by (simp add: fits_def bucketKeys_def getOrCreate_def timeNow_def Let_def bucketCount_def AList.dom_update)
next
  case (Some b)
  then show ?thesis using map_of_key[OF Some] by (auto simp: bucketKeys_def getOrCreate_def)
qed

lemma msAllowUpToN_keys_fit:
  "fits key s \<Longrightarrow> bucketKeys s \<subseteq> bucketKeys (snd (msAllowUpToN s key n limit period))"
  using getOrCreate_keys_fit[of key s limit period]
  by (auto simp: msAllowUpToN_def timeNow_def split_beta Let_def bucketKeys_def putBucket_def AList.dom_update)

lemma msRefund_other:
  "fits key s \<Longrightarrow> k \<noteq> key \<Longrightarrow> map_of (buckets (msRefund s key n limit period)) k = map_of (buckets s) k"
  using getOrCreate_other[of key s k limit period]
  by (simp add: msRefund_def split_beta Let_def putBucket_def AList.update_conv')

lemma msAllowUpToN_maxBuckets [simp]: "maxBuckets (snd (msAllowUpToN s key n limit period)) = maxBuckets s"
  by (simp add: msAllowUpToN_def timeNow_def split_beta Let_def)

lemma msRefund_maxBuckets [simp]: "maxBuckets (msRefund s key n limit period) = maxBuckets s"
  by (simp add: msRefund_def split_beta Let_def)

lemma memoryOps_simps [simp]:
  "opAllowUpToN memoryOps = msAllowUpToN" "opRefund memoryOps = msRefund"
  by (simp_all add: memoryOps_def)

lemma bucketCount_keys: "ms_inv s \<Longrightarrow> bucketCount s = int (card (bucketKeys s))"
  by (simp add: ms_inv_def bucketCount_def bucketKeys_def card_keys)

text \<open>The global bucket is charged exactly what the key was granted.\<close>

lemma AllowUpToNCtx_global:
  assumes inv: "ms_inv s" and b: "budgets_ok cvt rl key" and rl: "hasGlobal rl" and key: "key \<noteq> globalKey"
    and gb: "map_of (buckets s) globalKey = Some gb" and fit: "fits key s" and n: "0 < n"
  shows "map_of (buckets (snd (AllowUpToNCtx cvt memoryOps rl s key n))) globalKey
    = Some (charged (shd (rt_clock s)) (fst (AllowUpToNCtx cvt memoryOps rl s key n)) gb)" (is ?charged)
    and "of_int (fst (AllowUpToNCtx cvt memoryOps rl s key n)) \<le> tokens (refillLocked (shd (rt_clock s)) gb)" (is ?cap)
proof -
  obtain gl gp where g: "GlobalLimit (config rl) = (gl, gp)" by force
  obtain kl kp where k: "GetLimit cvt (config rl) key = (kl, kp)" by force
  define now where "now = shd (rt_clock s)"
  have ok: "bucket_ok now gb" using ms_inv_bucket[OF inv gb] by (simp add: now_def)
  obtain G where G: "AllowUpToN now n gb = (G, charged now G gb)" "0 \<le> G" "G \<le> n"
    "of_int G \<le> tokens (refillLocked now gb)" by (rule AllowUpToN_charged[OF ok n])
  define s1 where "s1 = putBucket globalKey (charged now G gb) (s\<lparr>rt_clock := stl (rt_clock s)\<rparr>)"
  have r1: "msAllowUpToN s globalKey n gl gp = (G, s1)"
    using msAllowUpToN_present[OF gb n, of gl gp] G(1) by (simp add: s1_def now_def)
  have s1: "ms_inv s1" using msAllowUpToN_inv(1)[OF inv, of gl gp globalKey n] b rl
    by (simp add: r1 budgets_ok_def g)
  have gb1: "map_of (buckets s1) globalKey = Some (charged now G gb)" by (simp add: s1_def)
  have "globalKey \<in> bucketKeys s" using map_of_key[OF gb] by (simp add: bucketKeys_def)
  then have "bucketKeys s1 = bucketKeys s" and "maxBuckets s1 = maxBuckets s"
    by (auto simp: s1_def putBucket_keys) (auto simp: bucketKeys_def)
  then have fit1: "fits key s1"
    using fit bucketCount_keys[OF inv] bucketCount_keys[OF s1] by (simp add: fits_def)
  obtain K s2 where r2: "msAllowUpToN s1 key G kl kp = (K, s2)" by force
  have K: "0 \<le> K" "K \<le> G"
    using msAllowUpToN_inv(2)[OF s1, of kl kp key G] b G(2) by (auto simp: r2 budgets_ok_def k)
  have gb2: "map_of (buckets s2) globalKey = Some (charged now G gb)"
    using msAllowUpToN_other[OF fit1, of globalKey G kl kp] key gb1 by (simp add: r2)
  have "map_of (buckets (msRefund s2 globalKey (G - K) gl gp)) globalKey = Some (charged now K gb)"
    if "K < G"
    using msRefund_present[OF gb2] Refund_charged[OF ok K(1) _ G(4)] that by simp
  with K gb1 gb2 show ?charged
    using n rl by (auto simp: AllowUpToNCtx_def g k r1 r2 Let_def now_def[symmetric] order.order_iff_strict)
  have "(of_int K :: rat) \<le> of_int G" using K(2) by simp
  with G(4) have "of_int K \<le> tokens (refillLocked now gb)" by linarith
  with G(4) K gb1 gb2 show ?cap
    using n rl by (auto simp: AllowUpToNCtx_def g k r1 r2 Let_def now_def[symmetric])
qed

text \<open>So is the bucket of the key, unless the global budget was empty and the key was not asked.\<close>

lemma AllowUpToNCtx_key:
  assumes inv: "ms_inv s" and b: "budgets_ok cvt rl key" and key: "hasGlobal rl \<Longrightarrow> key \<noteq> globalKey"
    and kb: "map_of (buckets s) key = Some kb" and gb: "hasGlobal rl \<Longrightarrow> globalKey \<in> bucketKeys s" and n: "0 < n"
  obtains t where "bucket_ok t kb" "of_int (fst (AllowUpToNCtx cvt memoryOps rl s key n)) \<le> tokens (refillLocked t kb)"
    "0 \<le> fst (AllowUpToNCtx cvt memoryOps rl s key n)"
    "map_of (buckets (snd (AllowUpToNCtx cvt memoryOps rl s key n))) key
       = Some (charged t (fst (AllowUpToNCtx cvt memoryOps rl s key n)) kb)
     \<or> fst (AllowUpToNCtx cvt memoryOps rl s key n) = 0
       \<and> map_of (buckets (snd (AllowUpToNCtx cvt memoryOps rl s key n))) key = Some kb"
proof -
  obtain gl gp where g: "GlobalLimit (config rl) = (gl, gp)" by force
  obtain kl kp where k: "GetLimit cvt (config rl) key = (kl, kp)" by force
  define r1 where "r1 = (if hasGlobal rl then msAllowUpToN s globalKey n gl gp else (n, s))"
  define t where "t = shd (rt_clock (snd r1))"
  have r1: "ms_inv (snd r1)" "0 \<le> fst r1"
    using inv b n msAllowUpToN_inv[OF inv, of gl gp globalKey n] by (auto simp: r1_def budgets_ok_def g)
  have kb1: "map_of (buckets (snd r1)) key = Some kb"
    using kb gb key msAllowUpToN_other[of globalKey s key n gl gp] by (auto simp: r1_def fits_def)
  then have ok: "bucket_ok t kb" unfolding t_def by (rule ms_inv_bucket[OF r1(1)])
  have tok: "0 \<le> tokens (refillLocked t kb)"
    using ok refillLocked_inv(1)[of kb t] by (auto simp: bucket_ok_def tb_inv_def)
  show ?thesis
  proof (cases "fst r1 = 0")
    case True
    with n have "hasGlobal rl" by (auto simp: r1_def split: if_splits)
    with True have "AllowUpToNCtx cvt memoryOps rl s key n = (0, snd r1)"
      using n by (simp add: AllowUpToNCtx_def Let_def g split_beta r1_def)
    with ok tok kb1 show ?thesis by (intro that[of t]) simp_all
  next
    case False
    with r1(2) have pos: "0 < fst r1" by simp
    obtain K where K: "AllowUpToN t (fst r1) kb = (K, charged t K kb)" "0 \<le> K"
      "of_int K \<le> tokens (refillLocked t kb)" by (rule AllowUpToN_charged[OF ok pos])
    define r2 where "r2 = msAllowUpToN (snd r1) key (fst r1) kl kp"
    have r2: "fst r2 = K" "map_of (buckets (snd r2)) key = Some (charged t K kb)"
      using msAllowUpToN_present[OF kb1 pos, of kl kp] K(1) by (simp_all add: r2_def t_def)
    have eq: "AllowUpToNCtx cvt memoryOps rl s key n =
      (K, if hasGlobal rl \<and> K < fst r1 then msRefund (snd r2) globalKey (fst r1 - K) gl gp else snd r2)"
      using n False r2(1) by (auto simp: AllowUpToNCtx_def Let_def g k split_beta r1_def r2_def)
    have "globalKey \<in> bucketKeys (snd r2)" if "hasGlobal rl"
      using gb[OF that] that kb1 msAllowUpToN_keys_fit[of globalKey s n gl gp]
        msAllowUpToN_keys_fit[of key "snd r1" "fst r1" kl kp] map_of_key[OF kb1]
      by (auto simp: r1_def r2_def fits_def bucketKeys_def[of "snd (msAllowUpToN s globalKey n gl gp)"])
    then have "map_of (buckets (snd (AllowUpToNCtx cvt memoryOps rl s key n))) key = Some (charged t K kb)"
      using r2(2) key msRefund_other[of globalKey "snd r2" key] by (auto simp: eq fits_def)
    with ok K show ?thesis by (intro that[of t]) (simp_all add: eq)
  qed
qed

text \<open>
  A denied all-or-nothing request spends nothing: both buckets are what a refill alone makes
  of them, or untouched.
\<close>

lemma AllowUpToNCtx_keys:
  "bucketKeys (snd (AllowUpToNCtx cvt memoryOps rl s key n)) \<subseteq> insert globalKey (insert key (bucketKeys s))"
proof -
  obtain gl gp where g: "GlobalLimit (config rl) = (gl, gp)" by force
  obtain kl kp where k: "GetLimit cvt (config rl) key = (kl, kp)" by force
  define r1 where "r1 = (if hasGlobal rl then msAllowUpToN s globalKey n gl gp else (n, s))"
  define r2 where "r2 = msAllowUpToN (snd r1) key (fst r1) kl kp"
  have "bucketKeys (snd r1) \<subseteq> insert globalKey (bucketKeys s)"
    using msAllowUpToN_keys[of s globalKey n gl gp] by (auto simp: r1_def)
  moreover have "bucketKeys (snd r2) \<subseteq> insert key (bucketKeys (snd r1))"
    unfolding r2_def by (rule msAllowUpToN_keys)
  moreover have "bucketKeys (msRefund (snd r2) globalKey m gl gp) \<subseteq> insert globalKey (bucketKeys (snd r2))" for m
    by (rule msRefund_keys)
  moreover have "AllowUpToNCtx cvt memoryOps rl s key n =
    (if n \<le> 0 then (0, s) else if hasGlobal rl \<and> fst r1 = 0 then (0, snd r1)
     else (fst r2, if hasGlobal rl \<and> fst r2 < fst r1
                   then msRefund (snd r2) globalKey (fst r1 - fst r2) gl gp else snd r2))"
    by (simp add: AllowUpToNCtx_def Let_def g k split_beta r1_def r2_def)
  ultimately show ?thesis by (simp split: if_splits) blast+
qed

lemma AllowUpToNCtx_maxBuckets [simp]:
  "maxBuckets (snd (AllowUpToNCtx cvt memoryOps rl s key n)) = maxBuckets s"
  by (simp add: AllowUpToNCtx_def Let_def split_beta)

lemma AllowNCtx_denied:
  assumes inv: "ms_inv s" and b: "budgets_ok cvt rl key" and rl: "hasGlobal rl" and key: "key \<noteq> globalKey"
    and kb: "map_of (buckets s) key = Some kb" and gb: "map_of (buckets s) globalKey = Some gb"
    and deny: "\<not> fst (AllowNCtx cvt memoryOps rl s key n)"
  shows "map_of (buckets (snd (AllowNCtx cvt memoryOps rl s key n))) globalKey
      = Some (refillLocked (shd (rt_clock s)) gb)"
    and "\<exists>t. map_of (buckets (snd (AllowNCtx cvt memoryOps rl s key n))) key \<in> {Some kb, Some (refillLocked t kb)}"
proof -
  have n: "0 < n" using deny by (auto simp: AllowNCtx_def split: if_splits)
  obtain gl gp where g: "GlobalLimit (config rl) = (gl, gp)" by force
  obtain kl kp where k: "GetLimit cvt (config rl) key = (kl, kp)" by force
  define t0 where "t0 = shd (rt_clock s)"
  obtain K s1 where r: "AllowUpToNCtx cvt memoryOps rl s key n = (K, s1)" by force
  have fit: "fits key s" using map_of_key[OF kb] by (simp add: fits_def bucketKeys_def)
  have gk: "globalKey \<in> bucketKeys s" using map_of_key[OF gb] by (simp add: bucketKeys_def)
  have ok: "bucket_ok t0 gb" unfolding t0_def by (rule ms_inv_bucket[OF inv gb])
  have glob: "map_of (buckets s1) globalKey = Some (charged t0 K gb)"
    using AllowUpToNCtx_global(1)[OF inv b rl key gb fit n] by (simp add: r t0_def)
  obtain t where t: "bucket_ok t kb" "of_int K \<le> tokens (refillLocked t kb)" "0 \<le> K"
    "map_of (buckets s1) key = Some (charged t K kb) \<or> K = 0 \<and> map_of (buckets s1) key = Some kb"
    by (rule AllowUpToNCtx_key[OF inv b key kb gk n]) (simp_all add: r)
  have K: "K \<noteq> n" using deny n by (auto simp: AllowNCtx_def r k g split: if_splits)
  have eq: "AllowNCtx cvt memoryOps rl s key n =
     (False, if 0 < K then msRefund (msRefund s1 key K kl kp) globalKey K gl gp else s1)"
    using n K rl by (simp add: AllowNCtx_def r k g)
  have cap: "of_int K \<le> tokens (refillLocked t0 gb)"
    using AllowUpToNCtx_global(2)[OF inv b rl key gb fit n] by (simp add: r t0_def)
  show "map_of (buckets (snd (AllowNCtx cvt memoryOps rl s key n))) globalKey
      = Some (refillLocked (shd (rt_clock s)) gb)"
  and "\<exists>t. map_of (buckets (snd (AllowNCtx cvt memoryOps rl s key n))) key \<in> {Some kb, Some (refillLocked t kb)}"
  proof -
    consider "K = 0" | "0 < K" "map_of (buckets s1) key = Some (charged t K kb)" using t by fastforce
    then have "map_of (buckets (snd (AllowNCtx cvt memoryOps rl s key n))) globalKey
        = Some (refillLocked t0 gb)
      \<and> map_of (buckets (snd (AllowNCtx cvt memoryOps rl s key n))) key \<in> {Some kb, Some (refillLocked t kb)}"
    proof cases
      case 1
      with glob t(4) show ?thesis by (auto simp: eq charged_0)
    next
      case 2
      have g2: "map_of (buckets (msRefund s1 key K kl kp)) globalKey = Some (charged t0 K gb)"
        using msRefund_present[OF 2(2,1), of kl kp] glob key by simp
      have "Refund K (charged t0 K gb) = refillLocked t0 gb"
        using ok t(3) cap by (rule Refund_charged_all)
      moreover have "Refund K (charged t K kb) = refillLocked t kb"
        using t(1,3,2) by (rule Refund_charged_all)
      ultimately show ?thesis
        using 2 key msRefund_present[OF 2(2,1), of kl kp] msRefund_present[OF g2 2(1), of gl gp]
        by (simp add: eq)
    qed
    then show "map_of (buckets (snd (AllowNCtx cvt memoryOps rl s key n))) globalKey
      = Some (refillLocked (shd (rt_clock s)) gb)"
      "\<exists>t. map_of (buckets (snd (AllowNCtx cvt memoryOps rl s key n))) key \<in> {Some kb, Some (refillLocked t kb)}"
      by (auto simp: t0_def)
  qed
qed

text \<open>
  The global ceiling: however many keys there are and in whatever order they ask, all the
  grants together stay within the global bucket's balance, its refill and its rounding.
\<close>

fun limiter_run ::
  "(f64 \<Rightarrow> int) \<Rightarrow> 'st StorageOps \<Rightarrow> RateLimiter \<Rightarrow> (string \<times> int) list \<Rightarrow> 'st \<Rightarrow> int \<times> 'st" where
  "limiter_run cvt S rl [] st = (0, st)"
| "limiter_run cvt S rl ((key, n) # calls) st =
     (let (g, st1) = AllowUpToNCtx cvt S rl st key n; (total, st2) = limiter_run cvt S rl calls st1
      in (g + total, st2))"

lemma charged_gain:
  assumes "bucket_ok t gb"
  shows "of_int K + tokens (charged t K gb) \<le> tokens gb + tb_rate gb * of_int (t - lastRefillTime gb) + tb_slack gb"
  using assms refill_gain[of gb t] by (simp add: bucket_ok_def charged_def Let_def)

lemma charged_simps [simp]:
  "tb_rate (charged t K gb) = tb_rate gb" "tb_slack (charged t K gb) = tb_slack gb"
  "lastRefillTime (charged t K gb) = t"
  by (simp_all add: charged_def Let_def tb_rate_def tb_slack_def)

lemma limiter_run_ceiling:
  assumes "ms_inv s" "hasGlobal rl" "\<forall>key \<in> fst ` set calls. budgets_ok cvt rl key \<and> key \<noteq> globalKey"
    and "map_of (buckets s) globalKey = Some gb"
    and "int (card (bucketKeys s \<union> fst ` set calls)) \<le> maxBuckets s"
  shows "\<exists>gb'. map_of (buckets (snd (limiter_run cvt memoryOps rl calls s))) globalKey = Some gb'
    \<and> tb_inv gb' \<and> lastRefillTime gb \<le> lastRefillTime gb'
    \<and> of_int (fst (limiter_run cvt memoryOps rl calls s)) + tokens gb'
      \<le> tokens gb + tb_rate gb * of_int (lastRefillTime gb' - lastRefillTime gb)
         + of_nat (length calls) * tb_slack gb"
  using assms
proof (induction calls arbitrary: s gb)
  case Nil
  then show ?case using ms_inv_bucket[OF Nil(1) Nil(4)] by (simp add: bucket_ok_def)
next
  case (Cons c calls)
  obtain key n where c: "c = (key, n)" by force
  have b: "budgets_ok cvt rl key" "key \<noteq> globalKey" using Cons.prems by (auto simp: c)
  obtain K s1 where r: "AllowUpToNCtx cvt memoryOps rl s key n = (K, s1)" by force
  have gb: "bucket_ok (shd (rt_clock s)) gb" by (rule ms_inv_bucket[OF Cons.prems(1,4)])
  then have slack: "0 \<le> tb_slack gb" "0 \<le> tb_rate gb" by (auto simp: bucket_ok_def tb.slack_nonneg tb.rate_nonneg)
  have s1: "ms_inv s1" using mem.AllowUpToNCtx_range[OF Cons.prems(1) b(1), of n] by (simp add: r)
  have gk: "globalKey \<in> bucketKeys s" using map_of_key[OF Cons.prems(4)] by (simp add: bucketKeys_def)
  have fit: "fits key s"
  proof (rule ccontr)
    assume "\<not> fits key s"
    then have "key \<notin> bucketKeys s" "maxBuckets s \<le> int (card (bucketKeys s))"
      using bucketCount_keys[OF Cons.prems(1)] by (auto simp: fits_def)
    moreover have "insert key (bucketKeys s) \<subseteq> bucketKeys s \<union> fst ` set (c # calls)" by (auto simp: c)
    then have "card (insert key (bucketKeys s)) \<le> card (bucketKeys s \<union> fst ` set (c # calls))"
      by (intro card_mono) (simp_all add: bucketKeys_def)
    ultimately show False using Cons.prems(5) by (simp add: bucketKeys_def)
  qed
  have "bucketKeys s1 \<union> fst ` set calls \<subseteq> bucketKeys s \<union> fst ` set (c # calls)"
    using AllowUpToNCtx_keys[of cvt rl s key n] gk by (auto simp: r c)
  then have "card (bucketKeys s1 \<union> fst ` set calls) \<le> card (bucketKeys s \<union> fst ` set (c # calls))"
    by (intro card_mono) (simp_all add: bucketKeys_def)
  moreover have "maxBuckets s1 = maxBuckets s" using AllowUpToNCtx_maxBuckets[of cvt rl s key n] by (simp add: r)
  ultimately have room: "int (card (bucketKeys s1 \<union> fst ` set calls)) \<le> maxBuckets s1" using Cons.prems(5) by simp
  obtain gb1 where gb1: "map_of (buckets s1) globalKey = Some gb1" "tb_rate gb1 = tb_rate gb" "tb_slack gb1 = tb_slack gb"
    "lastRefillTime gb \<le> lastRefillTime gb1"
    "of_int K + tokens gb1 \<le> tokens gb + tb_rate gb * of_int (lastRefillTime gb1 - lastRefillTime gb) + tb_slack gb"
  proof (cases "0 < n")
    case True
    show ?thesis
      using AllowUpToNCtx_global(1)[OF Cons.prems(1) b(1) Cons.prems(2) b(2) Cons.prems(4) fit True] gb
      by (intro that[of "charged (shd (rt_clock s)) K gb"])
        (simp_all add: r charged_gain bucket_ok_def del: of_int_diff)
  next
    case False
    then have "K = 0" "s1 = s" using r by (simp_all add: AllowUpToNCtx_def)
    then show ?thesis using slack Cons.prems by (intro that[of gb]) auto
  qed
  obtain gb' where gb': "map_of (buckets (snd (limiter_run cvt memoryOps rl calls s1))) globalKey = Some gb'"
    "tb_inv gb'" "lastRefillTime gb1 \<le> lastRefillTime gb'"
    "of_int (fst (limiter_run cvt memoryOps rl calls s1)) + tokens gb'
      \<le> tokens gb1 + tb_rate gb * of_int (lastRefillTime gb' - lastRefillTime gb1) + of_nat (length calls) * tb_slack gb"
    using Cons.IH[OF s1 Cons.prems(2) _ gb1(1) room] Cons.prems(3) gb1 by auto
  with gb1 show ?case
    by (simp add: c r split_beta Let_def algebra_simps)
qed

section \<open>Properties\<close>

text \<open>A limiter of five items a second per key and ten in all, on two full buckets, for evaluation.\<close>

definition exampleLimiter :: RateLimiter where
  "exampleLimiter = newRateLimiterWithStorage
     (createDefaultConfig\<lparr>RequestsPerSecond := 5, GlobalRequestsPerSecond := 10\<rparr>)"

definition exampleStorage :: memoryStorage where
  "exampleStorage = (newMemoryStorage 8 (sconst 0) (sconst (\<lambda>xs. xs)))\<lparr>buckets :=
     [(globalKey, NewTokenBucket 10 Second 0), (''a'', NewTokenBucket 5 Second 0)]\<rparr>"

lemma example_limits:
  "hasGlobal exampleLimiter" "GlobalLimit (config exampleLimiter) = (10, Second)"
  "GetLimit cvt (config exampleLimiter) key = (5, Second)"
  by (simp_all add: exampleLimiter_def newRateLimiterWithStorage_def configHasGlobal_def GlobalLimit_def
      GetLimit_def specificLimit_def shareLimit_def perKeyLimit_def capToShare_def createDefaultConfig_def)

lemma example_budgets: "budgets_ok cvt exampleLimiter key"
  by (simp add: budgets_ok_def example_limits budget_ok_def limit_ok_def)

lemma example_inv: "ms_inv exampleStorage"
proof -
  have "tb_inv (NewTokenBucket 5 Second 0)" "tb_inv (NewTokenBucket 10 Second 0)"
    by (rule NewTokenBucket_inv; simp add: limit_ok_def)+
  then show ?thesis
    by (simp add: exampleStorage_def ms_inv_def newMemoryStorage_def bucketCount_def bucket_ok_def globalKey_def)
      (simp add: NewTokenBucket_def)
qed

lemma example_buckets:
  "map_of (buckets exampleStorage) globalKey = Some (NewTokenBucket 10 Second 0)"
  "map_of (buckets exampleStorage) ''a'' = Some (NewTokenBucket 5 Second 0)"
  "buckets exampleStorage = [(globalKey, NewTokenBucket 10 Second 0), (''a'', NewTokenBucket 5 Second 0)]"
  "shd (rt_clock exampleStorage) = 0" "maxBuckets exampleStorage = 8" "''a'' \<noteq> globalKey"
  by (simp_all add: exampleStorage_def globalKey_def newMemoryStorage_def)

lemma example_run:
  "AllowUpToNCtx cvt memoryOps exampleLimiter exampleStorage ''a'' 7 =
     (5, exampleStorage\<lparr>buckets := [(globalKey, (NewTokenBucket 10 Second 0)\<lparr>tokens := 5\<rparr>),
                                     (''a'', (NewTokenBucket 5 Second 0)\<lparr>tokens := 0\<rparr>)]\<rparr>)"
  by (simp add: AllowUpToNCtx_def example_limits msAllowUpToN_def msRefund_def getOrCreate_def putBucket_def timeNow_def
      exampleStorage_def newMemoryStorage_def globalKey_def tb_eval)

text \<open>
  C7. On every backend that keeps the storage contract, a request for \<open>n\<close> items is granted
  between zero and \<open>n\<close>, the backend stays in its invariant, and the all-or-nothing request
  succeeds exactly when the partial one would grant all.
\<close>

theorem limiter_grant_range:
  assumes "storage S I" "I st" "budgets_ok cvt rl key" "0 < n"
  shows "fst (AllowUpToNCtx cvt S rl st key n) \<in> {0..n} \<and> I (snd (AllowUpToNCtx cvt S rl st key n))
    \<and> (fst (AllowNCtx cvt S rl st key n) \<longleftrightarrow> fst (AllowUpToNCtx cvt S rl st key n) = n)
    \<and> I (snd (AllowNCtx cvt S rl st key n))"
  using storage.AllowUpToNCtx_range[OF assms(1-3), of n] storage.AllowNCtx_inv[OF assms(1-3), of n]
    storage.AllowNCtx_all_or_nothing[OF assms(1,4)] assms(4) by simp

theorem limiter_grant_range_witness:
  "fst (AllowUpToNCtx (\<lambda>_. 0) memoryOps exampleLimiter exampleStorage ''a'' 7) = 5
   \<and> \<not> fst (AllowNCtx (\<lambda>_. 0) memoryOps exampleLimiter exampleStorage ''a'' 7)
   \<and> ms_inv (snd (AllowNCtx (\<lambda>_. 0) memoryOps exampleLimiter exampleStorage ''a'' 7))"
  using limiter_grant_range[OF mem.storage_axioms example_inv example_budgets, of 7 "\<lambda>_. 0" "''a''"]
  by (simp add: example_run)

text \<open>
  C3. A denied all-or-nothing request costs nothing: the tokens taken from the global bucket
  and from the key's bucket are given back exactly, so each is what a refill alone would have
  made of it, or untouched.
\<close>

theorem denied_request_costs_nothing:
  assumes "ms_inv s" "budgets_ok cvt rl key" "hasGlobal rl" "key \<noteq> globalKey"
    and "map_of (buckets s) key = Some kb" "map_of (buckets s) globalKey = Some gb"
    and "\<not> fst (AllowNCtx cvt memoryOps rl s key n)"
  shows "map_of (buckets (snd (AllowNCtx cvt memoryOps rl s key n))) globalKey
      = Some (refillLocked (shd (rt_clock s)) gb)
    \<and> (\<exists>t. map_of (buckets (snd (AllowNCtx cvt memoryOps rl s key n))) key \<in> {Some kb, Some (refillLocked t kb)})"
  using AllowNCtx_denied[OF assms] by simp

theorem denied_request_costs_nothing_witness:
  "\<not> fst (AllowNCtx (\<lambda>_. 0) memoryOps exampleLimiter exampleStorage ''a'' 7)
   \<and> map_of (buckets (snd (AllowNCtx (\<lambda>_. 0) memoryOps exampleLimiter exampleStorage ''a'' 7))) globalKey
     = Some (NewTokenBucket 10 Second 0)"
proof -
  have deny: "\<not> fst (AllowNCtx (\<lambda>_. 0) memoryOps exampleLimiter exampleStorage ''a'' 7)"
    by (simp add: AllowNCtx_def example_run example_limits)
  have "refillLocked 0 (NewTokenBucket 10 Second 0) = NewTokenBucket 10 Second 0" by (simp add: tb_eval)
  then show ?thesis
    using denied_request_costs_nothing[OF example_inv example_budgets example_limits(1) example_buckets(6,2,1) deny] deny
    by (simp add: example_buckets)
qed



end
