(* ===== verification/Pdata.thy ===== *)
theory Pdata
  imports Prelude Float64 "HOL-Library.Word"
begin

text \<open>
  Telemetry batches as both processors see them: resources that hold scopes that hold items
  (spans, log records or metrics). The \<^verbatim>\<open>pdata\<close> package is a library; what the code calls of it
  to change a batch, \<^verbatim>\<open>RemoveIf\<close> of each slice, is a parameter of the model (\<open>pdataLib\<close>), as is
  \<^verbatim>\<open>Value.AsString\<close>. \<open>pdata_ok\<close> states the documented behaviour of \<^verbatim>\<open>RemoveIf\<close>: it calls its
  argument once for each element, in order, and removes those for which it returns true. A Go
  closure that updates captured variables and its argument is a function that threads a state.
\<close>

section \<open>Data\<close>

datatype attr_value =
    VEmpty | VStr string | VInt int | VDouble f64 | VBool bool
  | VMap "(string \<times> attr_value) list" | VSlice "attr_value list" | VBytes "8 word list"

type_synonym attrs = "(string \<times> attr_value) list"

record 'a Scope =
  scName :: string
  scItems :: "'a list"

record 'a Resource =
  rAttrs :: attrs
  rScopes :: "'a Scope list"

type_synonym traceID = "8 word list"

datatype StatusCode = StatusCodeUnset | StatusCodeOk | StatusCodeError

record Span =
  spTraceID :: traceID
  spName :: string
  spStatus :: StatusCode
  spAttributes :: attrs

record LogRecord =
  lrSeverityNumber :: int
  lrSeverityText :: string
  lrBody :: attr_value
  lrAttributes :: attrs

text \<open>The five kinds of data points differ in their values only, which the code never reads.\<close>

record DataPoint =
  dpAttributes :: attrs

datatype MetricData =
    MetricEmpty
  | Gauge "DataPoint list" | Sum "DataPoint list" | Histogram "DataPoint list"
  | ExponentialHistogram "DataPoint list" | Summary "DataPoint list"

record Metric =
  mName :: string
  mData :: MetricData

type_synonym Traces = "Span Resource list"
type_synonym Logs = "LogRecord Resource list"
type_synonym Metrics = "Metric Resource list"

definition dataPoints :: "MetricData \<Rightarrow> DataPoint list" where
  "dataPoints d = (case d of MetricEmpty \<Rightarrow> [] | Gauge dps \<Rightarrow> dps | Sum dps \<Rightarrow> dps | Histogram dps \<Rightarrow> dps
     | ExponentialHistogram dps \<Rightarrow> dps | Summary dps \<Rightarrow> dps)"

text \<open>One \<^verbatim>\<open>Add\<close> to a counter with its attributes.\<close>

record measurement =
  me_counter :: string
  me_value :: int
  me_attrs :: "(string \<times> string) list"

section \<open>Slices\<close>

type_synonym ('s, 'a) removeIf =
  "('s \<Rightarrow> 'a \<Rightarrow> bool \<times> 'a \<times> 's) \<Rightarrow> 's \<Rightarrow> 'a list \<Rightarrow> 'a list \<times> 's"

record ('s, 'a) pdataLib =
  rmResources :: "('s, 'a Resource) removeIf"
  rmScopes :: "('s, 'a Scope) removeIf"
  rmItems :: "('s, 'a) removeIf"

fun seqRemoveIf :: "('s \<Rightarrow> 'a \<Rightarrow> bool \<times> 'a \<times> 's) \<Rightarrow> 's \<Rightarrow> 'a list \<Rightarrow> 'a list \<times> 's" where
  "seqRemoveIf f s [] = ([], s)"
| "seqRemoveIf f s (x # xs) =
     (let (b, x', s1) = f s x; (ys, s2) = seqRemoveIf f s1 xs in (if b then ys else x' # ys, s2))"

definition pdata_ok :: "('s, 'a) pdataLib \<Rightarrow> bool" where
  "pdata_ok lib \<longleftrightarrow> rmResources lib = seqRemoveIf \<and> rmScopes lib = seqRemoveIf \<and> rmItems lib = seqRemoveIf"

lemma pdata_okD [pdata]:
  "pdata_ok lib \<Longrightarrow> rmResources lib = seqRemoveIf" "pdata_ok lib \<Longrightarrow> rmScopes lib = seqRemoveIf"
  "pdata_ok lib \<Longrightarrow> rmItems lib = seqRemoveIf"
  by (simp_all add: pdata_ok_def)

definition seqLib :: "('s, 'a) pdataLib" where
  "seqLib = \<lparr>rmResources = seqRemoveIf, rmScopes = seqRemoveIf, rmItems = seqRemoveIf\<rparr>"

lemma seqLib_ok [simp]: "pdata_ok seqLib"
  by (simp add: pdata_ok_def seqLib_def)

lemma seqRemoveIf_append:
  "seqRemoveIf f s (xs @ ys) =
   (fst (seqRemoveIf f s xs) @ fst (seqRemoveIf f (snd (seqRemoveIf f s xs)) ys),
    snd (seqRemoveIf f (snd (seqRemoveIf f s xs)) ys))"
  by (induction xs arbitrary: s) (simp_all add: split_beta Let_def)

lemma seqRemoveIf_filter: "seqRemoveIf (\<lambda>s x. (P x, x, s)) s xs = (filter (\<lambda>x. \<not> P x) xs, s)"
  by (induction xs) auto

lemma seqRemoveIf_all:
  "(\<And>s x. \<not> fst (f s x) \<Longrightarrow> Q (fst (snd (f s x)))) \<Longrightarrow> \<forall>y \<in> set (fst (seqRemoveIf f s xs)). Q y"
  by (induction xs arbitrary: s) (simp_all add: split_beta Let_def)

text \<open>
  The pattern every removal of the two processors has: remove the items a closure selects, then
  the scopes and the resources that are left empty.
\<close>

definition pruneScopes ::
  "('s, 'a) pdataLib \<Rightarrow> ('a Scope \<Rightarrow> 's \<Rightarrow> 'a \<Rightarrow> bool \<times> 'a \<times> 's) \<Rightarrow> 's \<Rightarrow> 'a Scope list \<Rightarrow> 'a Scope list \<times> 's" where
  "pruneScopes lib f =
     rmScopes lib (\<lambda>s ss.
       let (items, s1) = rmItems lib (f ss) s (scItems ss)
       in (length items = 0, ss\<lparr>scItems := items\<rparr>, s1))"

definition pruneResources ::
  "('s, 'a) pdataLib \<Rightarrow> (attrs \<Rightarrow> string \<Rightarrow> 's \<Rightarrow> 'a \<Rightarrow> bool \<times> 'a \<times> 's) \<Rightarrow> 's \<Rightarrow> 'a Resource list \<Rightarrow> 'a Resource list \<times> 's" where
  "pruneResources lib f =
     rmResources lib (\<lambda>s rs.
       let (scopes, s1) = pruneScopes lib (\<lambda>ss. f (rAttrs rs) (scName ss)) s (rScopes rs)
       in (length scopes = 0, rs\<lparr>rScopes := scopes\<rparr>, s1))"

section \<open>Items\<close>

definition scopeItems :: "'a Scope list \<Rightarrow> 'a list" where
  "scopeItems scs = concat (map scItems scs)"

definition resItems :: "'a Resource \<Rightarrow> 'a list" where
  "resItems r = scopeItems (rScopes r)"

definition batchItems :: "'a Resource list \<Rightarrow> 'a list" where
  "batchItems td = concat (map resItems td)"

lemma items_simps [simp]:
  "scopeItems [] = []" "scopeItems (sc # scs) = scItems sc @ scopeItems scs"
  "batchItems [] = []" "batchItems (r # td) = resItems r @ batchItems td"
  by (simp_all add: scopeItems_def batchItems_def)

text \<open>Items with the resource and scope they are in: what a filter rule can see of them.\<close>

definition tagScopes :: "attrs \<Rightarrow> 'a Scope list \<Rightarrow> (attrs \<times> string \<times> 'a) list" where
  "tagScopes a scs = concat (map (\<lambda>sc. map (\<lambda>x. (a, scName sc, x)) (scItems sc)) scs)"

definition tagged :: "'a Resource list \<Rightarrow> (attrs \<times> string \<times> 'a) list" where
  "tagged td = concat (map (\<lambda>r. tagScopes (rAttrs r) (rScopes r)) td)"

lemma tag_simps [simp]:
  "tagScopes a [] = []" "tagScopes a (sc # scs) = map (\<lambda>x. (a, scName sc, x)) (scItems sc) @ tagScopes a scs"
  "tagged [] = []" "tagged (r # td) = tagScopes (rAttrs r) (rScopes r) @ tagged td"
  by (simp_all add: tagScopes_def tagged_def)

lemma tagScopes_items: "map (\<lambda>(a, sc, x). x) (tagScopes a scs) = scopeItems scs"
  by (induction scs) (simp_all add: comp_def)

lemma tagged_items: "map (\<lambda>(a, sc, x). x) (tagged td) = batchItems td"
  by (induction td) (simp_all add: resItems_def tagScopes_items)

definition tagClosure ::
  "(attrs \<Rightarrow> string \<Rightarrow> 's \<Rightarrow> 'a \<Rightarrow> bool \<times> 'a \<times> 's) \<Rightarrow> 's \<Rightarrow> attrs \<times> string \<times> 'a \<Rightarrow> bool \<times> (attrs \<times> string \<times> 'a) \<times> 's" where
  "tagClosure f s t = (case t of (a, sc, x) \<Rightarrow> let (b, x', s1) = f a sc s x in (b, (a, sc, x'), s1))"

lemma seqRemoveIf_tag:
  "seqRemoveIf (tagClosure f) s (map (\<lambda>x. (a, sc, x)) xs)
   = (map (\<lambda>x. (a, sc, x)) (fst (seqRemoveIf (f a sc) s xs)), snd (seqRemoveIf (f a sc) s xs))"
  by (induction xs arbitrary: s) (simp_all add: tagClosure_def split_beta Let_def)

lemma pruneScopes_tagged:
  assumes "pdata_ok lib"
  shows "tagScopes a (fst (pruneScopes lib (\<lambda>ss. f a (scName ss)) s scs))
      = fst (seqRemoveIf (tagClosure f) s (tagScopes a scs))
    \<and> snd (pruneScopes lib (\<lambda>ss. f a (scName ss)) s scs)
      = snd (seqRemoveIf (tagClosure f) s (tagScopes a scs))"
proof (induction scs arbitrary: s)
  case Nil
  show ?case by (simp add: pruneScopes_def pdata_okD[OF assms])
next
  case (Cons sc scs)
  let ?r = "seqRemoveIf (f a (scName sc)) s (scItems sc)"
  have "pruneScopes lib (\<lambda>ss. f a (scName ss)) s (sc # scs) =
    (if fst ?r = [] then fst (pruneScopes lib (\<lambda>ss. f a (scName ss)) (snd ?r) scs)
     else sc\<lparr>scItems := fst ?r\<rparr> # fst (pruneScopes lib (\<lambda>ss. f a (scName ss)) (snd ?r) scs),
     snd (pruneScopes lib (\<lambda>ss. f a (scName ss)) (snd ?r) scs))"
    by (simp add: pruneScopes_def pdata_okD[OF assms] split_beta Let_def)
  with Cons[of "snd ?r"] show ?case
    by (simp add: seqRemoveIf_append seqRemoveIf_tag)
qed

lemma pruneResources_tagged:
  assumes "pdata_ok lib"
  shows "tagged (fst (pruneResources lib f s td)) = fst (seqRemoveIf (tagClosure f) s (tagged td))
    \<and> snd (pruneResources lib f s td) = snd (seqRemoveIf (tagClosure f) s (tagged td))"
proof (induction td arbitrary: s)
  case Nil
  show ?case by (simp add: pruneResources_def pdata_okD[OF assms])
next
  case (Cons r td)
  let ?r = "pruneScopes lib (\<lambda>ss. f (rAttrs r) (scName ss)) s (rScopes r)"
  have eq: "pruneResources lib f s (r # td) =
    (if fst ?r = [] then fst (pruneResources lib f (snd ?r) td)
     else r\<lparr>rScopes := fst ?r\<rparr> # fst (pruneResources lib f (snd ?r) td),
     snd (pruneResources lib f (snd ?r) td))"
    by (simp add: pruneResources_def pdata_okD[OF assms] split_beta Let_def)
  note sc = pruneScopes_tagged[OF assms, of "rAttrs r" f s "rScopes r"]
  then have "fst ?r = [] \<Longrightarrow> fst (seqRemoveIf (tagClosure f) s (tagScopes (rAttrs r) (rScopes r))) = []" by auto
  with sc Cons[of "snd ?r"] show ?case by (simp add: eq seqRemoveIf_append)
qed

text \<open>No empty scope and no empty resource is left behind.\<close>

definition clean :: "'a Resource list \<Rightarrow> bool" where
  "clean td \<longleftrightarrow> (\<forall>r \<in> set td. rScopes r \<noteq> [] \<and> (\<forall>sc \<in> set (rScopes r). scItems sc \<noteq> []))"

lemma pruneScopes_clean:
  "pdata_ok lib \<Longrightarrow> \<forall>sc \<in> set (fst (pruneScopes lib f s scs)). scItems sc \<noteq> []"
  unfolding pruneScopes_def
  by (simp only: pdata_okD, rule seqRemoveIf_all) (simp add: split_beta Let_def)

lemma pruneResources_clean: "pdata_ok lib \<Longrightarrow> clean (fst (pruneResources lib f s td))"
  unfolding clean_def pruneResources_def
  by (simp only: pdata_okD, rule seqRemoveIf_all) (simp add: split_beta Let_def pruneScopes_clean)

lemma clean_empty: "clean td \<Longrightarrow> batchItems td = [] \<longleftrightarrow> td = []"
  by (cases td) (fastforce simp: clean_def resItems_def scopeItems_def neq_Nil_conv)+

text \<open>With a closure that ignores scope and state, the items left are those not selected.\<close>

lemma prune_filter:
  fixes s :: 's
  assumes "pdata_ok lib"
  shows "tagged (fst (pruneResources lib (\<lambda>a sc s x. (P a sc x, x, s)) s td))
    = filter (\<lambda>(a, sc, x). \<not> P a sc x) (tagged td)"
proof -
  have "tagClosure (\<lambda>a sc (s :: 's) x. (P a sc x, x, s)) = (\<lambda>s t. ((\<lambda>(a, sc, x). P a sc x) t, t, s))"
    by (simp add: tagClosure_def fun_eq_iff)
  then have "seqRemoveIf (tagClosure (\<lambda>a sc s x. (P a sc x, x, s))) s (tagged td)
      = (filter (\<lambda>t. \<not> (\<lambda>(a, sc, x). P a sc x) t) (tagged td), s)"
    using seqRemoveIf_filter[of "\<lambda>(a, sc, x). P a sc x" s "tagged td"] by simp
  with pruneResources_tagged[OF assms, of "\<lambda>a sc s x. (P a sc x, x, s)" s td] show ?thesis
    by (simp add: case_prod_unfold)
qed

section \<open>Lower case\<close>

text \<open>
  \<^verbatim>\<open>strings.ToLower\<close> maps the letters of an ASCII string; on other strings it follows the Unicode
  tables, which are the argument \<open>uni\<close>.
\<close>

definition lowerASCII :: "char \<Rightarrow> char" where
  "lowerASCII c = (let n = (of_char c :: nat) in if 65 \<le> n \<and> n \<le> 90 then char_of (n + 32) else c)"

definition ToLower :: "(string \<Rightarrow> string) \<Rightarrow> string \<Rightarrow> string" where
  "ToLower uni s = (if list_all (\<lambda>c. (of_char c :: nat) < 128) s then map lowerASCII s else uni s)"

section \<open>Dropping the first items of a kind\<close>

fun dropFirst :: "nat \<Rightarrow> ('a \<Rightarrow> bool) \<Rightarrow> 'a list \<Rightarrow> 'a list" where
  "dropFirst 0 P xs = xs"
| "dropFirst (Suc n) P [] = []"
| "dropFirst (Suc n) P (x # xs) = (if P x then dropFirst n P xs else x # dropFirst (Suc n) P xs)"

lemma dropFirst_Nil [simp]: "dropFirst n P [] = []"
  by (cases n) auto

lemma dropFirst_append:
  "dropFirst n P (xs @ ys) = dropFirst n P xs @ dropFirst (n - length (filter P xs)) P ys"
  by (induction n P xs rule: dropFirst.induct) auto

lemma filter_dropFirst_other: "filter (\<lambda>x. \<not> P x) (dropFirst n P xs) = filter (\<lambda>x. \<not> P x) xs"
  by (induction n P xs rule: dropFirst.induct) auto

lemma filter_dropFirst: "filter P (dropFirst n P xs) = drop n (filter P xs)"
  by (induction n P xs rule: dropFirst.induct) auto

lemma length_dropFirst: "n \<le> length (filter P xs) \<Longrightarrow> length (dropFirst n P xs) = length xs - n"
proof (induction n P xs rule: dropFirst.induct)
  case (3 n P x xs)
  have "Suc n \<le> length xs" if "\<not> P x"
    using 3(3) that order_trans[OF _ length_filter_le[of P xs], of "Suc n"] by simp
  with 3 show ?case by (cases "P x") (simp_all add: Suc_diff_le)
qed auto

lemma set_dropFirst: "set (dropFirst n P xs) \<subseteq> set xs"
  by (induction n P xs rule: dropFirst.induct) auto

text \<open>Pruning with a closure that does not look at the scope.\<close>

lemma seqRemoveIf_untag:
  "map (\<lambda>(a, sc, x). x) (fst (seqRemoveIf (tagClosure (\<lambda>_ _. g)) s ts)) = fst (seqRemoveIf g s (map (\<lambda>(a, sc, x). x) ts))
   \<and> snd (seqRemoveIf (tagClosure (\<lambda>_ _. g)) s ts) = snd (seqRemoveIf g s (map (\<lambda>(a, sc, x). x) ts))"
  by (induction ts arbitrary: s) (simp_all add: tagClosure_def split_beta Let_def)

lemma pruneScopes_items:
  assumes "pdata_ok lib"
  shows "scopeItems (fst (pruneScopes lib (\<lambda>_. g) s scs)) = fst (seqRemoveIf g s (scopeItems scs))
    \<and> snd (pruneScopes lib (\<lambda>_. g) s scs) = snd (seqRemoveIf g s (scopeItems scs))"
  using pruneScopes_tagged[OF assms, of "[]" "\<lambda>_ _. g" s scs]
    seqRemoveIf_untag[of g s "tagScopes [] scs"] tagScopes_items[of "[]" scs]
    tagScopes_items[of "[]" "fst (pruneScopes lib (\<lambda>_. g) s scs)"]
  by simp

text \<open>The items of the resources billed to one key, in batch order.\<close>

definition keyItems :: "(attrs \<Rightarrow> string) \<Rightarrow> string \<Rightarrow> 'a Resource list \<Rightarrow> 'a list" where
  "keyItems K k td = batchItems (filter (\<lambda>r. K (rAttrs r) = k) td)"

lemma keyItems_simps [simp]:
  "keyItems K k [] = []"
  "keyItems K k (r # td) = (if K (rAttrs r) = k then resItems r else []) @ keyItems K k td"
  by (simp_all add: keyItems_def)

end
