(* ===== verification/Rl_Processor.thy ===== *)
theory Rl_Processor
  imports Rate_Limiter Pdata
begin

text \<open>
  The rate limit processor (\<^verbatim>\<open>processor.go\<close> of \<^verbatim>\<open>ratelimitprocessor\<close>): the key of a resource, the
  counters with their bounded \<^verbatim>\<open>key\<close> label, the rejection error, and the admission of a batch of
  spans, log records or metrics. The processor's state holds the backend's state, the counters'
  measurements and the throttle of the warning; \<open>rlEnv\<close> gathers what is not in the repository
  (the storage's operations, \<^verbatim>\<open>Value.AsString\<close>, the Unicode tables, the status library).
\<close>

section \<open>State\<close>

record dropLogThrottle =
  dl_last :: "gotime option"
  dl_suppressed :: int

definition dropLogInterval :: duration where "dropLogInterval = 10 * Second"

definition dropLogNext :: "gotime \<Rightarrow> dropLogThrottle \<Rightarrow> (int \<times> bool) \<times> dropLogThrottle" where
  "dropLogNext now d =
     (if (case dl_last d of None \<Rightarrow> False | Some l \<Rightarrow> timeSub now l < dropLogInterval)
      then ((0, False), d\<lparr>dl_suppressed := dl_suppressed d + 1\<rparr>)
      else ((dl_suppressed d, True), \<lparr>dl_last = Some now, dl_suppressed = 0\<rparr>))"

record 'st rateLimitProcessor =
  rp_config :: Config
  rp_limiter :: RateLimiter
  rp_storage :: 'st
  metricKeyAllow :: "string list option"
  seenMetricKeys :: "string list option"
  rp_maxMetricKeys :: int
  keyLabelOn :: "string \<Rightarrow> bool"
  rp_gaugeReg :: bool
  rp_dropLog :: dropLogThrottle
  rp_measurements :: "measurement list"
  rp_clock :: "gotime stream"

record 'st rlEnv =
  envCvt :: "f64 \<Rightarrow> int"
  envOps :: "'st StorageOps"
  envAsString :: "attr_value \<Rightarrow> string"
  envUni :: "string \<Rightarrow> string"
  envDetailsOk :: bool

definition wireCounters :: "'st StorageOps \<Rightarrow> 'st \<Rightarrow> 'st" where
  "wireCounters S st = opSetFailOpenCounter S 0 (opSetEvictionCounter S 0 (opSetErrorCounter S 0 st))"

datatype 'e rp_error = TelemetryFailed 'e | GaugesFailed 'e

text \<open>
  \<open>tel\<close> is the result of creating the instruments, \<open>reg\<close> that of registering the gauge callback;
  \<open>shared\<close> tells whether the storage is a handle of the registry, which then owns the
  registration.
\<close>

definition newRateLimitProcessor ::
  "'st rlEnv \<Rightarrow> 'e option \<Rightarrow> 'e option \<Rightarrow> bool \<Rightarrow> gotime stream \<Rightarrow> Config \<Rightarrow> 'st \<Rightarrow> 'e rp_error + 'st rateLimitProcessor" where
  "newRateLimitProcessor env tel reg shared clk cfg st =
     (case tel of
        Some err \<Rightarrow> Inl (TelemetryFailed err)
      | None \<Rightarrow>
          let allow = (if MetricsKeyAllowlist cfg \<noteq> [] then Some (remdups (MetricsKeyAllowlist cfg)) else None);
              maxKeys = (if MaxMetricKeys cfg = 0 then defaultMaxMetricKeys else MaxMetricKeys cfg);
              bounded = (allow = None \<and> 0 < maxKeys);
              st1 = wireCounters (envOps env) st;
              rp = \<lparr>rp_config = cfg, rp_limiter = newRateLimiterWithStorage cfg, rp_storage = st1,
                    metricKeyAllow = allow,
                    seenMetricKeys = (if bounded then Some [] else None),
                    rp_maxMetricKeys = (if bounded then maxKeys else 0),
                    keyLabelOn = keyLabelSet cfg, rp_gaugeReg = False,
                    rp_dropLog = \<lparr>dl_last = None, dl_suppressed = 0\<rparr>, rp_measurements = [], rp_clock = clk\<rparr>
          in if allow \<noteq> None \<and> \<not> metricsBasic cfg
             then (case reg of Some err \<Rightarrow> Inl (GaugesFailed err) | None \<Rightarrow> Inr (rp\<lparr>rp_gaugeReg := \<not> shared\<rparr>))
             else Inr rp)"

text \<open>The gauge callback: capacity and free tokens of every allowlisted key, at scrape time.\<close>

fun observeGauges :: "'st rlEnv \<Rightarrow> string list \<Rightarrow> 'st rateLimitProcessor \<Rightarrow> (string \<times> rat \<times> rat) list \<times> 'st rateLimitProcessor" where
  "observeGauges env [] rp = ([], rp)"
| "observeGauges env (key # keys) rp =
     (let capF = fl (of_int (fst (GetLimit (envCvt env) (rp_config rp) key)));
          (v, st) = opAvailableTokens (envOps env) (rp_storage rp) key;
          free = (case v of None \<Rightarrow> capF | Some t \<Rightarrow> t);
          (obs, rp1) = observeGauges env keys (rp\<lparr>rp_storage := st\<rparr>)
      in ((key, capF, free) # obs, rp1))"

definition rpShutdown :: "'st rlEnv \<Rightarrow> 'st rateLimitProcessor \<Rightarrow> 'st rateLimitProcessor" where
  "rpShutdown env rp = rp\<lparr>rp_gaugeReg := False, rp_storage := opClose (envOps env) (rp_storage rp)\<rparr>"

section \<open>Keys\<close>

text \<open>\<open>md\<close> is \<^verbatim>\<open>client.Metadata.Get\<close> of the request's context.\<close>

type_synonym metadata = "string \<Rightarrow> string list"

definition extractKey :: "'st rlEnv \<Rightarrow> Config \<Rightarrow> metadata \<Rightarrow> (string \<rightharpoonup> string) \<Rightarrow> string" where
  "extractKey env cfg md as =
     (if LimitType cfg = ''attribute'' then
        (case as (AttributeKey cfg) of Some val \<Rightarrow> val | None \<Rightarrow> ''default'')
      else if LimitType cfg = ''header'' then
        (case md (ToLower (envUni env) (HeaderKey cfg)) of
           v # _ \<Rightarrow> if v \<noteq> '''' then v else ''default''
         | [] \<Rightarrow> ''default'')
      else if LimitType cfg = ''service_name'' then
        (case as ''service.name'' of Some val \<Rightarrow> val | None \<Rightarrow> ''default'')
      else ''default'')"

definition keyForResource :: "'st rlEnv \<Rightarrow> Config \<Rightarrow> metadata \<Rightarrow> attrs \<Rightarrow> string" where
  "keyForResource env cfg md as =
     (if LimitType cfg = ''attribute'' then
        (case map_of as (AttributeKey cfg) of Some v \<Rightarrow> envAsString env v | None \<Rightarrow> ''default'')
      else if LimitType cfg = ''service_name'' then
        (case map_of as ''service.name'' of Some v \<Rightarrow> envAsString env v | None \<Rightarrow> ''default'')
      else if LimitType cfg = ''header'' then extractKey env cfg md Map.empty
      else ''default'')"

definition metricKey :: "string \<Rightarrow> 'st rateLimitProcessor \<Rightarrow> string \<times> 'st rateLimitProcessor" where
  "metricKey key rp =
     (case metricKeyAllow rp of
        Some allow \<Rightarrow> (if key \<in> set allow then key else ''other'', rp)
      | None \<Rightarrow>
          (case seenMetricKeys rp of
             None \<Rightarrow> (key, rp)
           | Some seen \<Rightarrow>
               if key \<in> set seen then (key, rp)
               else if int (length seen) < rp_maxMetricKeys rp then (key, rp\<lparr>seenMetricKeys := Some (seen @ [key])\<rparr>)
               else (''other'', rp)))"

definition metricAttrs ::
  "string \<Rightarrow> string \<Rightarrow> string \<Rightarrow> string \<Rightarrow> 'st rateLimitProcessor \<Rightarrow> (string \<times> string) list \<times> 'st rateLimitProcessor" where
  "metricAttrs counter key signal priority rp =
     (let rest = [(''signal'', signal), (''priority'', priority), (''limit_type'', LimitType (rp_config rp))]
      in if keyLabelOn rp counter
         then let (k, rp1) = metricKey key rp in ((''key'', k) # rest, rp1)
         else (rest, rp))"

text \<open>\<^verbatim>\<open>counter.Add(ctx, n, rp.metricAttrs(...))\<close>.\<close>

definition addItems ::
  "string \<Rightarrow> int \<Rightarrow> string \<Rightarrow> string \<Rightarrow> string \<Rightarrow> 'st rateLimitProcessor \<Rightarrow> 'st rateLimitProcessor" where
  "addItems counter n key signal priority rp =
     (let (as, rp1) = metricAttrs counter key signal priority rp
      in rp1\<lparr>rp_measurements := rp_measurements rp1 @ [\<lparr>me_counter = counter, me_value = n, me_attrs = as\<rparr>]\<rparr>)"

definition warnDrop :: "'st rateLimitProcessor \<Rightarrow> 'st rateLimitProcessor" where
  "warnDrop rp =
     rp\<lparr>rp_dropLog := snd (dropLogNext (shd (rp_clock rp)) (rp_dropLog rp)), rp_clock := stl (rp_clock rp)\<rparr>"

section \<open>Rejection\<close>

text \<open>The error's message is made of a key, a limit type and a number of dropped items.\<close>

datatype rl_error =
    PermanentError string string int
  | ResourceExhausted string string int "duration option"

definition retryDelay :: "(f64 \<Rightarrow> int) \<Rightarrow> int \<Rightarrow> duration \<Rightarrow> int \<Rightarrow> duration" where
  "retryDelay cvt limit period denied =
     (let delay = (if 0 < limit then
            let rate = fl (fl (of_int limit) / Seconds period)
            in int64_of_f64 cvt (f64_norm (fl (fl (of_int denied) / rate) * fl (of_int Second)))
          else Second);
          delay = (if delay < 100 * Millisecond then 100 * Millisecond else delay)
      in if 30 * Second < delay then 30 * Second else delay)"

definition limitExceededError :: "'st rlEnv \<Rightarrow> Config \<Rightarrow> string \<Rightarrow> int \<Rightarrow> rl_error" where
  "limitExceededError env cfg key denied =
     (if RejectionMode cfg = ''permanent'' then PermanentError key (LimitType cfg) denied
      else let (limit, period) = GetLimit (envCvt env) cfg key;
               delay = retryDelay (envCvt env) limit period denied
           in ResourceExhausted key (LimitType cfg) denied (if envDetailsOk env then Some delay else None))"

section \<open>Admission per key\<close>

record keyTally =
  kt_key :: string
  kt_critical :: int
  kt_normal :: int

fun tallyAdd :: "string \<Rightarrow> int \<Rightarrow> int \<Rightarrow> keyTally list \<Rightarrow> keyTally list" where
  "tallyAdd key c n [] = [\<lparr>kt_key = key, kt_critical = c, kt_normal = n\<rparr>]"
| "tallyAdd key c n (t # ts) =
     (if kt_key t = key then t\<lparr>kt_critical := kt_critical t + c, kt_normal := kt_normal t + n\<rparr> # ts
      else t # tallyAdd key c n ts)"

definition countIf :: "('a \<Rightarrow> bool) \<Rightarrow> 'a list \<Rightarrow> int" where
  "countIf P xs = int (length (filter P xs))"

definition keyGroups :: "('a Resource \<Rightarrow> string) \<Rightarrow> ('a \<Rightarrow> bool) \<Rightarrow> 'a Resource list \<Rightarrow> string list \<times> keyTally list" where
  "keyGroups keyOf critical td =
     (map keyOf td,
      fold (\<lambda>r. tallyAdd (keyOf r) (countIf critical (resItems r)) (countIf (\<lambda>x. \<not> critical x) (resItems r))) td [])"

record batchTally =
  forwarded :: int
  totalDenied :: int
  deniedKey :: string
  excessByKey :: "string \<Rightarrow> int"

definition noTally :: batchTally where
  "noTally = \<lparr>forwarded = 0, totalDenied = 0, deniedKey = '''', excessByKey = (\<lambda>_. 0)\<rparr>"

definition admitGroup ::
  "'st rlEnv \<Rightarrow> string \<Rightarrow> keyTally \<Rightarrow> 'st rateLimitProcessor \<times> batchTally \<Rightarrow> 'st rateLimitProcessor \<times> batchTally" where
  "admitGroup env signal g s =
     (let (rp, b) = s; key = kt_key g; critical = kt_critical g; normal = kt_normal g;
          rp1 = addItems ''received'' (critical + normal) key signal ''all'' rp;
          (normalAllowed, st) =
            AllowUpToNCtx (envCvt env) (envOps env) (rp_limiter rp1) (rp_storage rp1) key normal;
          rp2 = rp1\<lparr>rp_storage := st\<rparr>;
          rp3 = (if 0 < critical then addItems ''preserved'' critical key signal ''critical'' rp2 else rp2);
          excess = normal - normalAllowed;
          (rp4, b1) =
            (if 0 < excess
             then (warnDrop (addItems ''denied'' excess key signal ''normal'' rp3),
                   b\<lparr>excessByKey := (excessByKey b)(key := excess),
                     totalDenied := totalDenied b + excess, deniedKey := key\<rparr>)
             else (rp3, b));
          rp5 = addItems ''allowed'' (critical + normalAllowed) key signal ''all'' rp4
      in (rp5, b1\<lparr>forwarded := forwarded b1 + (critical + normalAllowed)\<rparr>))"

text \<open>The captured variables of the removal closures: the resource index and the excess per key.\<close>

type_synonym dropState = "int \<times> (string \<Rightarrow> int)"

definition dropNormalItem :: "('a \<Rightarrow> bool) \<Rightarrow> string \<Rightarrow> dropState \<Rightarrow> 'a \<Rightarrow> bool \<times> 'a \<times> dropState" where
  "dropNormalItem critical key s x =
     (let (idx, ex) = s
      in if ex key \<le> 0 then (False, x, s)
         else if critical x then (False, x, s)
         else (True, x, (idx, ex(key := ex key - 1))))"

definition dropNormalByKey ::
  "(dropState, 'a) pdataLib \<Rightarrow> ('a \<Rightarrow> bool) \<Rightarrow> string list \<Rightarrow> (string \<Rightarrow> int) \<Rightarrow> 'a Resource list \<Rightarrow> 'a Resource list" where
  "dropNormalByKey lib critical resKeys excess td =
     fst (rmResources lib (\<lambda>s rs.
       let (idx0, ex) = s; idx = idx0 + 1; key = resKeys ! nat idx
       in if ex key \<le> 0 then (False, rs, (idx, ex))
          else let (scopes, s1) = pruneScopes lib (\<lambda>_. dropNormalItem critical key) (idx, ex) (rScopes rs)
               in (length scopes = 0, rs\<lparr>rScopes := scopes\<rparr>, s1)) (- 1, excess) td)"

text \<open>
  What \<^verbatim>\<open>processTraces\<close> and \<^verbatim>\<open>processLogs\<close> do with a signal's key groups (\<open>kg\<close>) and its removal
  of normal items (\<open>dropN\<close>).
\<close>

definition processItems ::
  "'st rlEnv \<Rightarrow> string \<Rightarrow> string list \<times> keyTally list \<Rightarrow> (string list \<Rightarrow> (string \<Rightarrow> int) \<Rightarrow> 'a Resource list)
   \<Rightarrow> 'a Resource list \<Rightarrow> 'st rateLimitProcessor \<Rightarrow> ('a Resource list \<times> rl_error option) \<times> 'st rateLimitProcessor" where
  "processItems env signal kg dropN td rp =
     (if length td = 0 then ((td, None), rp)
      else let cfg = rp_config rp;
               (resKeys, groups) = kg;
               (rp1, b) = fold (admitGroup env signal) groups (rp, noTally)
           in if 0 < totalDenied b \<and> DropOnLimit cfg
              then if forwarded b = 0
                   then ((td, Some (limitExceededError env cfg (deniedKey b) (totalDenied b))), rp1)
                   else ((dropN resKeys (excessByKey b), None), rp1)
              else ((td, None), rp1))"

section \<open>Traces\<close>

definition isCriticalSpan :: "Span \<Rightarrow> bool" where
  "isCriticalSpan sp \<longleftrightarrow> spStatus sp = StatusCodeError"

definition criticalSpan :: "Config \<Rightarrow> Span \<Rightarrow> bool" where
  "criticalSpan cfg sp \<longleftrightarrow> PreserveErrors cfg \<and> isCriticalSpan sp"

definition tracesKeyGroups :: "'st rlEnv \<Rightarrow> Config \<Rightarrow> metadata \<Rightarrow> Traces \<Rightarrow> string list \<times> keyTally list" where
  "tracesKeyGroups env cfg md td = keyGroups (\<lambda>rs. keyForResource env cfg md (rAttrs rs)) (criticalSpan cfg) td"

definition dropNormalSpansByKey ::
  "(dropState, Span) pdataLib \<Rightarrow> Traces \<Rightarrow> string list \<Rightarrow> (string \<Rightarrow> int) \<Rightarrow> bool \<Rightarrow> Traces" where
  "dropNormalSpansByKey lib td resKeys excess preserveErrors =
     dropNormalByKey lib (\<lambda>sp. preserveErrors \<and> isCriticalSpan sp) resKeys excess td"

type_synonym traceTally = "traceID \<times> int"

fun traceAdd :: "traceID \<Rightarrow> traceTally list \<Rightarrow> traceTally list" where
  "traceAdd tid [] = [(tid, 1)]"
| "traceAdd tid ((t, n) # ts) = (if t = tid then (t, n + 1) # ts else (t, n) # traceAdd tid ts)"

definition spansIn :: "Traces \<Rightarrow> nat list \<Rightarrow> Span list" where
  "spansIn td resIdx = concat (map (\<lambda>i. resItems (td ! i)) resIdx)"

definition criticalTraces :: "bool \<Rightarrow> Span list \<Rightarrow> traceID list" where
  "criticalTraces preserveErrors spans =
     (if preserveErrors then map spTraceID (filter isCriticalSpan spans) else [])"

definition analyzeTracesIn :: "Traces \<Rightarrow> nat list \<Rightarrow> bool \<Rightarrow> int \<times> int \<times> traceTally list" where
  "analyzeTracesIn td resIdx preserveErrors =
     (let spans = spansIn td resIdx; critical = criticalTraces preserveErrors spans
      in fold (\<lambda>sp (preserved, normal, normalTraces).
           if spTraceID sp \<in> set critical then (preserved + 1, normal, normalTraces)
           else (preserved, normal + 1, traceAdd (spTraceID sp) normalTraces)) spans (0, 0, []))"

definition planTraceDrops :: "traceTally list \<Rightarrow> int \<Rightarrow> traceID list \<times> int" where
  "planTraceDrops normalTraces allowed =
     (case fold (\<lambda>(tid, n) (kept, dropIDs, dropped).
             if kept + n \<le> allowed then (kept + n, dropIDs, dropped)
             else (kept, dropIDs @ [tid], dropped + n)) normalTraces (0 :: int, [], 0)
      of (kept, dropIDs, dropped) \<Rightarrow> (dropIDs, dropped))"

definition dropTracesByID :: "(dropState, Span) pdataLib \<Rightarrow> Traces \<Rightarrow> traceID list \<Rightarrow> Traces" where
  "dropTracesByID lib td dropIDs =
     (if length dropIDs = 0 then td
      else fst (pruneResources lib (\<lambda>_ _ s sp. (spTraceID sp \<in> set dropIDs, sp, s)) (0, \<lambda>_. 0) td))"

text \<open>The keys in first-seen order, and the indices of each key's resources.\<close>

definition keyOrder :: "string list \<Rightarrow> string list" where
  "keyOrder keys = fold (\<lambda>k order. if k \<in> set order then order else order @ [k]) keys []"

definition resByKey :: "string list \<Rightarrow> string \<Rightarrow> nat list" where
  "resByKey keys key = filter (\<lambda>i. keys ! i = key) [0..<length keys]"

record traceBatch =
  tb_forwarded :: int
  tb_totalDenied :: int
  tb_deniedKey :: string
  tb_dropAll :: "traceID list"

definition admitTraces ::
  "'st rlEnv \<Rightarrow> Traces \<Rightarrow> string list \<Rightarrow> string \<Rightarrow> 'st rateLimitProcessor \<times> traceBatch \<Rightarrow> 'st rateLimitProcessor \<times> traceBatch" where
  "admitTraces env td keys key s =
     (let (rp, b) = s;
          (critical, normal, normalTraces) =
            analyzeTracesIn td (resByKey keys key) (PreserveErrors (rp_config rp));
          rp1 = addItems ''received'' (critical + normal) key ''traces'' ''all'' rp;
          (normalAllowed, st) =
            AllowUpToNCtx (envCvt env) (envOps env) (rp_limiter rp1) (rp_storage rp1) key normal;
          rp2 = rp1\<lparr>rp_storage := st\<rparr>;
          rp3 = (if 0 < critical then addItems ''preserved'' critical key ''traces'' ''critical'' rp2 else rp2);
          (dropIDs, dropped) = planTraceDrops normalTraces normalAllowed;
          keptNormal = normal - dropped;
          b1 = b\<lparr>tb_dropAll := tb_dropAll b @ dropIDs\<rparr>;
          (rp4, b2) =
            (if 0 < dropped
             then (warnDrop (addItems ''denied'' dropped key ''traces'' ''normal'' rp3),
                   b1\<lparr>tb_totalDenied := tb_totalDenied b1 + dropped, tb_deniedKey := key\<rparr>)
             else (rp3, b1));
          rp5 = addItems ''allowed'' (critical + keptNormal) key ''traces'' ''all'' rp4
      in (rp5, b2\<lparr>tb_forwarded := tb_forwarded b2 + (critical + keptNormal)\<rparr>))"

definition processTracesByTrace ::
  "'st rlEnv \<Rightarrow> (dropState, Span) pdataLib \<Rightarrow> metadata \<Rightarrow> Traces \<Rightarrow> 'st rateLimitProcessor
   \<Rightarrow> (Traces \<times> rl_error option) \<times> 'st rateLimitProcessor" where
  "processTracesByTrace env lib md td rp =
     (if length td = 0 then ((td, None), rp)
      else let cfg = rp_config rp;
               keys = map (\<lambda>rs. keyForResource env cfg md (rAttrs rs)) td;
               (rp1, b) = fold (admitTraces env td keys) (keyOrder keys)
                 (rp, \<lparr>tb_forwarded = 0, tb_totalDenied = 0, tb_deniedKey = '''', tb_dropAll = []\<rparr>)
           in if 0 < tb_totalDenied b \<and> DropOnLimit cfg
              then if tb_forwarded b = 0
                   then ((td, Some (limitExceededError env cfg (tb_deniedKey b) (tb_totalDenied b))), rp1)
                   else ((dropTracesByID lib td (tb_dropAll b), None), rp1)
              else ((td, None), rp1))"

definition processTraces ::
  "'st rlEnv \<Rightarrow> (dropState, Span) pdataLib \<Rightarrow> metadata \<Rightarrow> Traces \<Rightarrow> 'st rateLimitProcessor
   \<Rightarrow> (Traces \<times> rl_error option) \<times> 'st rateLimitProcessor" where
  "processTraces env lib md td rp =
     (if TraceIDAware (rp_config rp) then processTracesByTrace env lib md td rp
      else processItems env ''traces'' (tracesKeyGroups env (rp_config rp) md td)
             (\<lambda>resKeys excess. dropNormalSpansByKey lib td resKeys excess (PreserveErrors (rp_config rp))) td rp)"

text \<open>
  What a batch comes to: an error for the caller, or a batch handed to the next consumer.
\<close>

datatype 'a consumed = Rejected rl_error | Forwarded 'a

definition forward :: "('a \<times> rl_error option) \<times> 'st rateLimitProcessor \<Rightarrow> 'a consumed \<times> 'st rateLimitProcessor" where
  "forward r = (case r of ((out, Some err), rp) \<Rightarrow> (Rejected err, rp) | ((out, None), rp) \<Rightarrow> (Forwarded out, rp))"

definition ConsumeTraces ::
  "'st rlEnv \<Rightarrow> (dropState, Span) pdataLib \<Rightarrow> metadata \<Rightarrow> Traces \<Rightarrow> 'st rateLimitProcessor
   \<Rightarrow> Traces consumed \<times> 'st rateLimitProcessor" where
  "ConsumeTraces env lib md td rp = forward (processTraces env lib md td rp)"

section \<open>Logs\<close>

definition SeverityNumberError :: int where "SeverityNumberError = 17"

definition isCriticalLog :: "LogRecord \<Rightarrow> bool" where
  "isCriticalLog lr \<longleftrightarrow> SeverityNumberError \<le> lrSeverityNumber lr"

definition criticalLog :: "Config \<Rightarrow> LogRecord \<Rightarrow> bool" where
  "criticalLog cfg lr \<longleftrightarrow> PreserveErrors cfg \<and> isCriticalLog lr"

definition logsKeyGroups :: "'st rlEnv \<Rightarrow> Config \<Rightarrow> metadata \<Rightarrow> Logs \<Rightarrow> string list \<times> keyTally list" where
  "logsKeyGroups env cfg md ld = keyGroups (\<lambda>rl. keyForResource env cfg md (rAttrs rl)) (criticalLog cfg) ld"

definition dropNormalLogsByKey ::
  "(dropState, LogRecord) pdataLib \<Rightarrow> Logs \<Rightarrow> string list \<Rightarrow> (string \<Rightarrow> int) \<Rightarrow> bool \<Rightarrow> Logs" where
  "dropNormalLogsByKey lib ld resKeys excess preserveErrors =
     dropNormalByKey lib (\<lambda>lr. preserveErrors \<and> isCriticalLog lr) resKeys excess ld"

definition processLogs ::
  "'st rlEnv \<Rightarrow> (dropState, LogRecord) pdataLib \<Rightarrow> metadata \<Rightarrow> Logs \<Rightarrow> 'st rateLimitProcessor
   \<Rightarrow> (Logs \<times> rl_error option) \<times> 'st rateLimitProcessor" where
  "processLogs env lib md ld rp =
     processItems env ''logs'' (logsKeyGroups env (rp_config rp) md ld)
       (\<lambda>resKeys excess. dropNormalLogsByKey lib ld resKeys excess (PreserveErrors (rp_config rp))) ld rp"

definition ConsumeLogs ::
  "'st rlEnv \<Rightarrow> (dropState, LogRecord) pdataLib \<Rightarrow> metadata \<Rightarrow> Logs \<Rightarrow> 'st rateLimitProcessor
   \<Rightarrow> Logs consumed \<times> 'st rateLimitProcessor" where
  "ConsumeLogs env lib md ld rp = forward (processLogs env lib md ld rp)"

section \<open>Metrics\<close>

definition countDataPointsIn :: "Metric Resource \<Rightarrow> int" where
  "countDataPointsIn rm = sum_list (map (\<lambda>m. int (length (dataPoints (mData m)))) (resItems rm))"

definition countDataPoints :: "Metrics \<Rightarrow> int" where
  "countDataPoints md = sum_list (map countDataPointsIn md)"

record metricBatch =
  mb_forwarded :: int
  mb_totalDenied :: int
  mb_deniedKey :: string
  mb_deniedKeys :: "string list"

definition admitMetrics ::
  "'st rlEnv \<Rightarrow> (string \<Rightarrow> int) \<Rightarrow> string \<Rightarrow> 'st rateLimitProcessor \<times> metricBatch \<Rightarrow> 'st rateLimitProcessor \<times> metricBatch" where
  "admitMetrics env counts key s =
     (let (rp, b) = s; c = counts key;
          rp1 = addItems ''received'' c key ''metrics'' ''all'' rp;
          (ok, st) = AllowNCtx (envCvt env) (envOps env) (rp_limiter rp1) (rp_storage rp1) key c;
          rp2 = rp1\<lparr>rp_storage := st\<rparr>
      in if \<not> ok
         then (warnDrop (addItems ''denied'' c key ''metrics'' ''normal'' rp2),
               b\<lparr>mb_deniedKeys := mb_deniedKeys b @ [key], mb_totalDenied := mb_totalDenied b + c, mb_deniedKey := key\<rparr>)
         else (addItems ''allowed'' c key ''metrics'' ''all'' rp2, b\<lparr>mb_forwarded := mb_forwarded b + c\<rparr>))"

definition keyCounts :: "string list \<Rightarrow> int list \<Rightarrow> string \<Rightarrow> int" where
  "keyCounts keys cs = fold (\<lambda>(k, c) counts. counts(k := counts k + c)) (zip keys cs) (\<lambda>_. 0)"

definition processMetrics ::
  "'st rlEnv \<Rightarrow> (int, Metric) pdataLib \<Rightarrow> metadata \<Rightarrow> Metrics \<Rightarrow> 'st rateLimitProcessor
   \<Rightarrow> (Metrics \<times> rl_error option) \<times> 'st rateLimitProcessor" where
  "processMetrics env lib meta md rp =
     (if length md = 0 then ((md, None), rp)
      else let cfg = rp_config rp;
               resKeys = map (\<lambda>rm. keyForResource env cfg meta (rAttrs rm)) md;
               counts = keyCounts resKeys (map countDataPointsIn md);
               (rp1, b) = fold (admitMetrics env counts) (keyOrder resKeys)
                 (rp, \<lparr>mb_forwarded = 0, mb_totalDenied = 0, mb_deniedKey = '''', mb_deniedKeys = []\<rparr>)
           in if 0 < mb_totalDenied b \<and> DropOnLimit cfg
              then if mb_forwarded b = 0
                   then ((md, Some (limitExceededError env cfg (mb_deniedKey b) (mb_totalDenied b))), rp1)
                   else ((fst (rmResources lib (\<lambda>idx0 rm. let idx = idx0 + 1
                            in (resKeys ! nat idx \<in> set (mb_deniedKeys b), rm, idx)) (- 1) md), None), rp1)
              else ((md, None), rp1))"

definition ConsumeMetrics ::
  "'st rlEnv \<Rightarrow> (int, Metric) pdataLib \<Rightarrow> metadata \<Rightarrow> Metrics \<Rightarrow> 'st rateLimitProcessor
   \<Rightarrow> Metrics consumed \<times> 'st rateLimitProcessor" where
  "ConsumeMetrics env lib meta md rp = forward (processMetrics env lib meta md rp)"

end
