(* ===== verification/Rl_Registry.thy ===== *)
theory Rl_Registry
  imports Shared_Registry Redis_Storage Rl_Processor
begin

text \<open>
  Choosing and sharing a storage (\<^verbatim>\<open>newStorage\<close> of \<^verbatim>\<open>storage.go\<close>, \<^verbatim>\<open>storage_shared.go\<close>, \<^verbatim>\<open>factory.go\<close>): a
  backend is the in-process or the Redis storage, dispatched like a Go interface value; the
  registry shares it among the pipelines of a component; the factory validates, acquires and
  builds. Shown over every run of a collector: pipelines of one component are on one backend,
  which lives exactly as long as one of them.
\<close>

section \<open>Choosing a backend\<close>

datatype anyStorage = MemoryBackend memoryStorage | RedisBackend redisStorage

definition anyOps :: "anyStorage StorageOps" where
  "anyOps = \<lparr>
     opAllowUpToN = (\<lambda>st k n l p. case st of
         MemoryBackend s \<Rightarrow> let (g, s1) = opAllowUpToN memoryOps s k n l p in (g, MemoryBackend s1)
       | RedisBackend s \<Rightarrow> let (g, s1) = opAllowUpToN redisOps s k n l p in (g, RedisBackend s1)),
     opRefund = (\<lambda>st k n l p. case st of
         MemoryBackend s \<Rightarrow> MemoryBackend (opRefund memoryOps s k n l p)
       | RedisBackend s \<Rightarrow> RedisBackend (opRefund redisOps s k n l p)),
     opAvailableTokens = (\<lambda>st k. case st of
         MemoryBackend s \<Rightarrow> let (v, s1) = opAvailableTokens memoryOps s k in (v, MemoryBackend s1)
       | RedisBackend s \<Rightarrow> let (v, s1) = opAvailableTokens redisOps s k in (v, RedisBackend s1)),
     opSetErrorCounter = (\<lambda>c. case_anyStorage (\<lambda>s. MemoryBackend (opSetErrorCounter memoryOps c s)) (\<lambda>s. RedisBackend (opSetErrorCounter redisOps c s))),
     opSetEvictionCounter = (\<lambda>c. case_anyStorage (\<lambda>s. MemoryBackend (opSetEvictionCounter memoryOps c s)) (\<lambda>s. RedisBackend (opSetEvictionCounter redisOps c s))),
     opSetFailOpenCounter = (\<lambda>c. case_anyStorage (\<lambda>s. MemoryBackend (opSetFailOpenCounter memoryOps c s)) (\<lambda>s. RedisBackend (opSetFailOpenCounter redisOps c s))),
     opClose = case_anyStorage (\<lambda>s. MemoryBackend (opClose memoryOps s)) (\<lambda>s. RedisBackend (opClose redisOps s)),
     opName = case_anyStorage (opName memoryOps) (opName redisOps)\<rparr>"

definition any_inv :: "anyStorage \<Rightarrow> bool" where
  "any_inv = case_anyStorage ms_inv rs_inv"

interpretation any: storage anyOps any_inv
proof
  fix st limit period k n c
  assume inv: "any_inv st"
  note I = inv[unfolded any_inv_def]
  show "any_inv (snd (opAllowUpToN anyOps st k n limit period))" if "budget_ok (limit, period)"
    using I that mem.allow_inv red.allow_inv by (cases st) (simp_all add: anyOps_def any_inv_def split_beta Let_def)
  show "0 \<le> fst (opAllowUpToN anyOps st k n limit period) \<and> fst (opAllowUpToN anyOps st k n limit period) \<le> max 0 n"
    if "budget_ok (limit, period)"
    using I that mem.allow_range red.allow_range by (cases st) (simp_all add: anyOps_def split_beta Let_def)
  show "any_inv (opRefund anyOps st k n limit period)" if "budget_ok (limit, period)"
    using I that mem.refund_inv red.refund_inv by (cases st) (simp_all add: anyOps_def any_inv_def)
  show "any_inv (snd (opAvailableTokens anyOps st k))"
    using I mem.available_inv red.available_inv by (cases st) (simp_all add: anyOps_def any_inv_def split_beta Let_def)
  show "any_inv (opSetErrorCounter anyOps c st) \<and> any_inv (opSetEvictionCounter anyOps c st) \<and> any_inv (opSetFailOpenCounter anyOps c st)"
    using I mem.counter_inv red.counter_inv by (cases st) (simp_all add: anyOps_def any_inv_def)
  show "any_inv (opClose anyOps st)"
    using I mem.close_inv red.close_inv by (cases st) (simp_all add: anyOps_def any_inv_def)
qed

text \<open>What the constructors need from outside: TLS loading, the ping, the Redis contents and the clocks.\<close>

record ('e, 'tls) storageWorld =
  wLoadTLS :: "tls_client_config \<Rightarrow> 'e + 'tls"
  wPing :: "'tls UniversalOptions \<Rightarrow> 'e option"
  wDb :: redisDb
  wNet :: "((redisDb \<Rightarrow> redisDb) \<times> netOutcome) stream"
  wClock :: "gotime stream"
  wOrders :: "iter_order stream"

datatype 'e storage_error = RedisNotConfigured | UnsupportedBackend string | RedisFailed "'e redis_error"

definition newStorage :: "('e, 'tls) storageWorld \<Rightarrow> Config \<Rightarrow> 'e storage_error + anyStorage" where
  "newStorage w cfg =
     (let backend = (case Storage cfg of Some s \<Rightarrow> if Backend s \<noteq> '''' then Backend s else ''memory'' | None \<Rightarrow> ''memory'')
      in if backend = ''memory'' then
           (let maxB = (case Storage cfg of Some s \<Rightarrow> MaxBuckets s | None \<Rightarrow> 0)
            in Inr (MemoryBackend (newMemoryStorage maxB (wClock w) (wOrders w))))
         else if backend = ''redis'' then
           (case Storage cfg of
              None \<Rightarrow> Inl RedisNotConfigured
            | Some s \<Rightarrow>
                (case Redis s of
                   None \<Rightarrow> Inl RedisNotConfigured
                 | Some r \<Rightarrow>
                     (case newRedisStorage (wLoadTLS w) (wPing w) (wDb w) (wClock w) (wNet w) r of
                        Inl err \<Rightarrow> Inl (RedisFailed err)
                      | Inr rs \<Rightarrow> Inr (RedisBackend rs))))
         else Inl (UnsupportedBackend backend))"

section \<open>The registry\<close>

type_synonym storageRegistry = "(anyStorage, sharedEntry) registry"

definition newStorageEntry :: "nat \<Rightarrow> sharedEntry" where
  "newStorageEntry b = \<lparr>se_backend = b, refs = 1, gaugeReg = False, gaugeSet = False\<rparr>"

definition storageAcquire ::
  "('e, 'tls) storageWorld \<Rightarrow> string \<Rightarrow> Config \<Rightarrow> storageRegistry \<Rightarrow> ('e storage_error + nat) \<times> storageRegistry" where
  "storageAcquire w i cfg r = acquire newStorageEntry i (newStorage w cfg) r"

definition sharedStorageClose :: "nat \<Rightarrow> storageRegistry \<Rightarrow> storageRegistry" where
  "sharedStorageClose k r = closeHandle (opClose anyOps) k r"

section \<open>The factory\<close>

datatype 'e create_error = CfgInvalid cfg_error | StorageFailed "'e storage_error" | ProcessorFailed "'e rp_error"

definition acquireStorage ::
  "('e, 'tls) storageWorld \<Rightarrow> string \<Rightarrow> Config \<Rightarrow> storageRegistry \<Rightarrow> ('e create_error + Config \<times> nat) \<times> storageRegistry" where
  "acquireStorage w i cfg r =
     (case Validate cfg of
        Some err \<Rightarrow> (Inl (CfgInvalid err), r)
      | None \<Rightarrow>
          let oCfg = applyStorageDefaults cfg
          in case storageAcquire w i oCfg r of
               (Inl err, r1) \<Rightarrow> (Inl (StorageFailed err), r1)
             | (Inr k, r1) \<Rightarrow> (Inr (oCfg, k), r1))"

definition handleBackend :: "('st, 'e) registry \<Rightarrow> nat \<Rightarrow> nat" where
  "handleBackend r k = h_backend (handles r ! k)"

text \<open>
  \<open>tel\<close> and \<open>reg\<close> are the results of creating the instruments and of registering the gauges. The
  counters are wired into the shared backend before the gauges are registered.
\<close>

definition createProcessor ::
  "('e, 'tls) storageWorld \<Rightarrow> anyStorage rlEnv \<Rightarrow> 'e option \<Rightarrow> 'e option \<Rightarrow> gotime stream \<Rightarrow> string \<Rightarrow> Config
   \<Rightarrow> storageRegistry \<Rightarrow> ('e create_error + anyStorage rateLimitProcessor \<times> nat) \<times> storageRegistry" where
  "createProcessor w env tel reg clk i cfg r =
     (case acquireStorage w i cfg r of
        (Inl err, r1) \<Rightarrow> (Inl err, r1)
      | (Inr (oCfg, k), r1) \<Rightarrow>
          let b = handleBackend r1 k; st = backends r1 ! b;
              (gerr, r2) = (if tel = None \<and> MetricsKeyAllowlist oCfg \<noteq> [] \<and> \<not> metricsBasic oCfg
                            then registerGauges i reg r1 else (None, r1));
              st1 = (if tel = None then wireCounters (envOps env) st else st);
              r3 = r2\<lparr>backends := (backends r2)[b := st1]\<rparr>
          in case newRateLimitProcessor env tel gerr True clk oCfg st of
               Inl err \<Rightarrow> (Inl (ProcessorFailed err), r3)
             | Inr rp \<Rightarrow> (Inr (rp, k), r3))"

definition createTracesProcessor ::
  "('e, 'tls) storageWorld \<Rightarrow> anyStorage rlEnv \<Rightarrow> 'e option \<Rightarrow> 'e option \<Rightarrow> gotime stream \<Rightarrow> string \<Rightarrow> Config
   \<Rightarrow> storageRegistry \<Rightarrow> ('e create_error + anyStorage rateLimitProcessor \<times> nat) \<times> storageRegistry" where
  "createTracesProcessor = createProcessor"

definition createMetricsProcessor ::
  "('e, 'tls) storageWorld \<Rightarrow> anyStorage rlEnv \<Rightarrow> 'e option \<Rightarrow> 'e option \<Rightarrow> gotime stream \<Rightarrow> string \<Rightarrow> Config
   \<Rightarrow> storageRegistry \<Rightarrow> ('e create_error + anyStorage rateLimitProcessor \<times> nat) \<times> storageRegistry" where
  "createMetricsProcessor = createProcessor"

definition createLogsProcessor ::
  "('e, 'tls) storageWorld \<Rightarrow> anyStorage rlEnv \<Rightarrow> 'e option \<Rightarrow> 'e option \<Rightarrow> gotime stream \<Rightarrow> string \<Rightarrow> Config
   \<Rightarrow> storageRegistry \<Rightarrow> ('e create_error + anyStorage rateLimitProcessor \<times> nat) \<times> storageRegistry" where
  "createLogsProcessor = createProcessor"

text \<open>A pipeline's use of the shared backend through its handle, and its shutdown.\<close>

definition consumeShared ::
  "nat \<Rightarrow> (anyStorage rateLimitProcessor \<Rightarrow> 'res \<times> anyStorage rateLimitProcessor) \<Rightarrow> anyStorage rateLimitProcessor
   \<Rightarrow> storageRegistry \<Rightarrow> 'res \<times> anyStorage rateLimitProcessor \<times> storageRegistry" where
  "consumeShared k run rp r =
     (let b = handleBackend r k; (res, rp1) = run (rp\<lparr>rp_storage := backends r ! b\<rparr>)
      in (res, rp1, r\<lparr>backends := (backends r)[b := rp_storage rp1]\<rparr>))"

definition shutdownShared ::
  "nat \<Rightarrow> anyStorage rateLimitProcessor \<Rightarrow> storageRegistry \<Rightarrow> anyStorage rateLimitProcessor \<times> storageRegistry" where
  "shutdownShared k rp r = (rp\<lparr>rp_gaugeReg := False\<rparr>, sharedStorageClose k r)"

section \<open>Runs of a collector\<close>

text \<open>
  Pipelines are created for any component, signal and configuration, use the backend of their
  component, and shut down, in any order.
\<close>

inductive rl_system :: "storageRegistry \<Rightarrow> bool" where
  sys_new: "rl_system newRegistry"
| sys_create: "rl_system r \<Longrightarrow> f \<in> {createTracesProcessor, createMetricsProcessor, createLogsProcessor}
    \<Longrightarrow> rl_system (snd (f (w :: (string, unit) storageWorld) env tel reg clk i cfg r))"
| sys_traces: "rl_system r \<Longrightarrow> rl_system (snd (snd (consumeShared k (ConsumeTraces env tlib md td) rp r)))"
| sys_logs: "rl_system r \<Longrightarrow> rl_system (snd (snd (consumeShared k (ConsumeLogs env llib md ld) rp r)))"
| sys_metrics: "rl_system r \<Longrightarrow> rl_system (snd (snd (consumeShared k (ConsumeMetrics env mlib md ms) rp r)))"
| sys_shutdown: "rl_system r \<Longrightarrow> k < length (handles r) \<Longrightarrow> rl_system (snd (shutdownShared k rp r))"

lemma createProcessor_run:
  assumes "shared_run newStorageEntry (opClose anyOps) r"
  shows "shared_run newStorageEntry (opClose anyOps) (snd (createProcessor w env tel reg clk i cfg r))"
proof -
  obtain res r1 where a: "acquireStorage w i cfg r = (res, r1)" by force
  have "r1 = r \<or> (\<exists>oCfg. r1 = snd (storageAcquire w i oCfg r))"
    using a by (auto simp: acquireStorage_def Let_def split: option.splits prod.splits sum.splits) (metis snd_conv)+
  then have r1: "shared_run newStorageEntry (opClose anyOps) r1"
    using assms by (auto simp: storageAcquire_def intro: run_acquire_any)
  show ?thesis
  proof (cases res)
    case (Inl err)
    then show ?thesis using r1 by (simp add: createProcessor_def a)
  next
    case (Inr p)
    obtain oCfg k where p: "p = (oCfg, k)" by force
    show ?thesis using r1 run_registerGauges[OF r1, of i reg]
      by (simp add: createProcessor_def a Inr p split_beta Let_def run_use split: sum.split)
  qed
qed

lemma rl_system_run: "rl_system r \<Longrightarrow> shared_run newStorageEntry (opClose anyOps) r"
proof (induction rule: rl_system.induct)
  case sys_new
  show ?case by (rule run_new)
next
  case (sys_create r f w env tel reg clk i cfg)
  then show ?case
    using createProcessor_run[of r w env tel reg clk i cfg]
    by (auto simp: createTracesProcessor_def createMetricsProcessor_def createLogsProcessor_def)
next
  case (sys_shutdown r k rp)
  then show ?case by (simp add: shutdownShared_def sharedStorageClose_def run_close)
qed (simp_all add: consumeShared_def split_beta Let_def run_use)

text \<open>
  C37. All open pipelines of one component share one storage, so a key's budget is one bucket
  across traces, metrics and logs; a storage is closed exactly when the last pipeline on it is
  shut down, and never twice, whatever the order of creations and shutdowns.
\<close>

theorem shared_storage_lifetime:
  assumes "rl_system r"
  shows "(\<forall>h \<in> set (handles r). \<forall>h' \<in> set (handles r). \<not> h_once h \<and> \<not> h_once h' \<and> h_id h = h_id h' \<longrightarrow> h_backend h = h_backend h')
    \<and> (\<forall>b < length (backends r). b \<in> set (closedBackends r) \<longleftrightarrow> \<not> (\<exists>h \<in> set (handles r). \<not> h_once h \<and> h_backend h = b))
    \<and> distinct (closedBackends r)"
  by (rule reg_inv_lifetime, rule shared_run_inv[OF rl_system_run[OF assms]]) (simp add: newStorageEntry_def)

definition exampleWorld :: "(string, unit) storageWorld" where
  "exampleWorld = \<lparr>wLoadTLS = (\<lambda>_. Inl ''''), wPing = (\<lambda>_. None), wDb = Map.empty, wNet = sconst (id, NetOk),
     wClock = sconst 0, wOrders = sconst (\<lambda>xs. xs)\<rparr>"

definition anyEnv :: "anyStorage rlEnv" where
  "anyEnv = \<lparr>envCvt = (\<lambda>_. 0), envOps = anyOps, envAsString = (\<lambda>_. ''''), envUni = (\<lambda>s. s), envDetailsOk = True\<rparr>"

definition twoPipelines :: storageRegistry where
  "twoPipelines = snd (createLogsProcessor exampleWorld anyEnv None None (sconst 0) ''ratelimit'' createDefaultConfig
     (snd (createTracesProcessor exampleWorld anyEnv None None (sconst 0) ''ratelimit'' createDefaultConfig newRegistry)))"

lemma example_newStorage: "newStorage exampleWorld createDefaultConfig = Inr (MemoryBackend (newMemoryStorage 0 (sconst 0) (sconst (\<lambda>xs. xs))))"
  by (simp add: newStorage_def createDefaultConfig_def exampleWorld_def)

lemma default_config: "Validate createDefaultConfig = None" "applyStorageDefaults createDefaultConfig = createDefaultConfig"
  by (simp_all add: Validate_def applyStorageDefaults_def createDefaultConfig_def)

lemma twoPipelines_handles:
  "map h_backend (handles twoPipelines) = [0, 0] \<and> map h_once (handles twoPipelines) = [False, False]
   \<and> length (backends twoPipelines) = 1"
proof -
  have m: "MetricsKeyAllowlist createDefaultConfig = []" by (simp add: createDefaultConfig_def)
  show ?thesis
    by (simp add: twoPipelines_def createLogsProcessor_def createTracesProcessor_def createProcessor_def acquireStorage_def
        default_config storageAcquire_def example_newStorage acquire_def newRegistry_def addHandle_def newStorageEntry_def
        newRateLimitProcessor_def m Let_def handleBackend_def)
qed

theorem shared_storage_lifetime_witness:
  "rl_system twoPipelines \<and> map h_backend (handles twoPipelines) = [0, 0] \<and> 0 \<notin> set (closedBackends twoPipelines)"
proof -
  have sys: "rl_system twoPipelines" unfolding twoPipelines_def by (intro sys_create sys_new) simp_all
  obtain h h' where hs: "handles twoPipelines = [h, h']" "h_backend h = 0" "\<not> h_once h"
    using twoPipelines_handles by (auto simp: map_eq_Cons_conv)
  have "\<forall>b < length (backends twoPipelines). b \<in> set (closedBackends twoPipelines)
      \<longleftrightarrow> \<not> (\<exists>h \<in> set (handles twoPipelines). \<not> h_once h \<and> h_backend h = b)"
    using shared_storage_lifetime[OF sys] by blast
  then have "0 \<notin> set (closedBackends twoPipelines)" using hs twoPipelines_handles by simp
  then show ?thesis using twoPipelines_handles sys by simp
qed

text \<open>
  A pipeline whose creation fails after the storage was acquired never gives its handle back: no
  processor exists that could be shut down, so the storage stays open.
\<close>

theorem failed_create_keeps_handle:
  "(\<exists>e. fst (createTracesProcessor exampleWorld anyEnv (Some ''meter'') None (sconst 0) ''ratelimit'' createDefaultConfig newRegistry) = Inl e)
   \<and> length (openHandles (snd (createTracesProcessor exampleWorld anyEnv (Some ''meter'') None (sconst 0) ''ratelimit'' createDefaultConfig newRegistry)) ''ratelimit'') = 1"
  by (simp add: createTracesProcessor_def createProcessor_def acquireStorage_def openHandles_def
        default_config storageAcquire_def example_newStorage acquire_def newRegistry_def addHandle_def newStorageEntry_def
        newRateLimitProcessor_def Let_def handleBackend_def)

end
