(* ===== verification/Rl_Admission.thy ===== *)
theory Rl_Admission
  imports Rl_Processor
begin

text \<open>
  The admission of spans and log records, proved against its specification \<open>admission\<close>: per key,
  exactly the ungranted normal items are removed, the first ones, and nothing else. Shown in the
  locale \<open>storage\<close>, so for every backend: one grant per key explains the batch that goes out, the
  counters and the error.
\<close>

section \<open>What the removal removes\<close>

lemma dropNormalItem_run:
  "seqRemoveIf (dropNormalItem critical key) (idx, ex) xs =
   (dropFirst (nat (ex key)) (\<lambda>x. \<not> critical x) xs,
    (idx, ex(key := ex key - int (min (nat (ex key)) (length (filter (\<lambda>x. \<not> critical x) xs))))))"
proof (induction xs arbitrary: ex)
  case (Cons x xs)
  show ?case
  proof (cases "ex key \<le> 0")
    case True
    then show ?thesis using Cons[of ex] by (simp add: dropNormalItem_def)
  next
    case False
    define m where "m = nat (ex key - 1)"
    from False have m: "nat (ex key) = Suc m" "nat (ex key - 1) = m" "ex key = int m + 1"
      by (auto simp: m_def)
    show ?thesis
    proof (cases "critical x")
      case True
      with False have "dropNormalItem critical key (idx, ex) x = (False, x, (idx, ex))"
        by (simp add: dropNormalItem_def)
      then show ?thesis using True m(1) by (simp add: Cons)
    next
      case False': False
      with False have "dropNormalItem critical key (idx, ex) x = (True, x, (idx, ex(key := ex key - 1)))"
        by (simp add: dropNormalItem_def)
      then show ?thesis using False' m by (auto simp: Cons fun_eq_iff)
    qed
  qed
qed simp

definition dropClosure ::
  "(dropState, 'a) pdataLib \<Rightarrow> ('a \<Rightarrow> bool) \<Rightarrow> string list \<Rightarrow> dropState \<Rightarrow> 'a Resource \<Rightarrow> bool \<times> 'a Resource \<times> dropState" where
  "dropClosure lib critical resKeys s rs =
       (let (idx0, ex) = s; idx = idx0 + 1; key = resKeys ! nat idx
       in if ex key \<le> 0 then (False, rs, (idx, ex))
          else let (scopes, s1) = pruneScopes lib (\<lambda>_. dropNormalItem critical key) (idx, ex) (rScopes rs)
               in (length scopes = 0, rs\<lparr>rScopes := scopes\<rparr>, s1))"

lemma dropNormalByKey_closure:
  "dropNormalByKey lib critical resKeys ex td = fst (rmResources lib (dropClosure lib critical resKeys) (- 1, ex) td)"
  unfolding dropNormalByKey_def by (rule arg_cong[where f = fst]) (simp add: dropClosure_def[abs_def])

lemma dropClosure_items:
  assumes ok: "pdata_ok lib" and keys: "resKeys = pre @ map (\<lambda>r. K (rAttrs r)) td"
  shows "keyItems K k (fst (seqRemoveIf (dropClosure lib critical resKeys) (int (length pre) - 1, ex) td))
    = dropFirst (nat (ex k)) (\<lambda>x. \<not> critical x) (keyItems K k td)"
  using keys
proof (induction td arbitrary: pre ex)
  case (Cons r td)
  let ?key = "K (rAttrs r)" and ?n = "\<lambda>x. \<not> critical x"
  let ?ex = "ex(?key := ex ?key - int (min (nat (ex ?key)) (length (filter ?n (resItems r)))))"
  let ?F = "dropClosure lib critical resKeys"
  let ?p = "pruneScopes lib (\<lambda>_. dropNormalItem critical ?key) (int (length pre), ex) (rScopes r)"
  have key: "resKeys ! length pre = ?key" using Cons.prems by simp
  have IH: "keyItems K k (fst (seqRemoveIf ?F (int (length pre), ex') td))
      = dropFirst (nat (ex' k)) ?n (keyItems K k td)" for ex'
    using Cons.IH[of "pre @ [?key]" ex'] Cons.prems by simp
  show ?case
  proof (cases "ex ?key \<le> 0")
    case True
    then have "?F (int (length pre) - 1, ex) r = (False, r, (int (length pre), ex))"
      by (simp add: dropClosure_def key)
    with IH True show ?thesis by (auto simp: dropFirst_append split_beta)
  next
    case False
    have p: "scopeItems (fst ?p) = dropFirst (nat (ex ?key)) ?n (resItems r)" "snd ?p = (int (length pre), ?ex)"
      using pruneScopes_items[OF ok, of "dropNormalItem critical ?key" "(int (length pre), ex)" "rScopes r"]
      by (simp_all add: dropNormalItem_run resItems_def)
    have F: "?F (int (length pre) - 1, ex) r = (fst ?p = [], r\<lparr>rScopes := fst ?p\<rparr>, (int (length pre), ?ex))"
      using False p(2) by (simp add: dropClosure_def key split_beta Let_def)
    have e: "fst ?p = [] \<Longrightarrow> dropFirst (nat (ex ?key)) ?n (resItems r) = []" using p(1) by (metis items_simps(1))
    have n: "nat (?ex k) = (if ?key = k then nat (ex k) - length (filter ?n (resItems r)) else nat (ex k))" by auto
    show ?thesis using F IH[of ?ex] e p(1) n
      by (auto simp: resItems_def[of "r\<lparr>rScopes := fst ?p\<rparr>"] dropFirst_append split_beta simp del: fun_upd_apply)
  qed
qed simp

text \<open>
  Per key, exactly the first \<open>excess\<close> normal items are removed and nothing else changes.
\<close>

lemma dropNormalByKey_items:
  assumes "pdata_ok lib"
  shows "keyItems K k (dropNormalByKey lib critical (map (\<lambda>r. K (rAttrs r)) td) excess td)
    = dropFirst (nat (excess k)) (\<lambda>x. \<not> critical x) (keyItems K k td)"
  using dropClosure_items[OF assms, of "map (\<lambda>r. K (rAttrs r)) td" "[]" K td k critical excess]
  by (simp add: dropNormalByKey_closure pdata_okD[OF assms])

section \<open>Counters\<close>

definition counterTotal :: "string \<Rightarrow> 'st rateLimitProcessor \<Rightarrow> int" where
  "counterTotal c rp = sum_list (map me_value (filter (\<lambda>m. me_counter m = c) (rp_measurements rp)))"

lemma metricKey_frame:
  "rp_config (snd (metricKey key rp)) = rp_config rp" "rp_limiter (snd (metricKey key rp)) = rp_limiter rp"
  "rp_storage (snd (metricKey key rp)) = rp_storage rp" "rp_measurements (snd (metricKey key rp)) = rp_measurements rp"
  by (simp_all add: metricKey_def split: option.split)

lemma addItems_frame [simp]:
  "rp_config (addItems c n key sig pr rp) = rp_config rp" "rp_limiter (addItems c n key sig pr rp) = rp_limiter rp"
  "rp_storage (addItems c n key sig pr rp) = rp_storage rp"
  by (simp_all add: addItems_def metricAttrs_def metricKey_frame split_beta Let_def)

lemma warnDrop_frame [simp]:
  "rp_config (warnDrop rp) = rp_config rp" "rp_limiter (warnDrop rp) = rp_limiter rp"
  "rp_storage (warnDrop rp) = rp_storage rp" "counterTotal c (warnDrop rp) = counterTotal c rp"
  by (simp_all add: warnDrop_def counterTotal_def)

lemma counterTotal_add [simp]:
  "counterTotal c (addItems c' n key sig pr rp) = counterTotal c rp + (if c' = c then n else 0)"
  by (simp add: counterTotal_def addItems_def metricAttrs_def metricKey_frame split_beta Let_def)

lemma counterTotal_storage [simp]: "counterTotal c (rp\<lparr>rp_storage := st\<rparr>) = counterTotal c rp"
  by (simp add: counterTotal_def)

section \<open>Grouping\<close>

lemma tallyAdd_keys:
  "kt_key ` set (tallyAdd key c n ts) = insert key (kt_key ` set ts)"
  "distinct (map kt_key ts) \<Longrightarrow> distinct (map kt_key (tallyAdd key c n ts))"
proof -
  show *: "kt_key ` set (tallyAdd key c n ts) = insert key (kt_key ` set ts)" for ts
    by (induction ts) auto
  show "distinct (map kt_key ts) \<Longrightarrow> distinct (map kt_key (tallyAdd key c n ts))"
  proof (induction ts)
    case (Cons t ts)
    then show ?case using *[of ts] by (auto simp: image_iff)
  qed simp
qed

lemma tallyAdd_member:
  assumes "distinct (map kt_key ts)" "g \<in> set (tallyAdd key c n ts)"
  shows "g \<in> set ts \<and> kt_key g \<noteq> key
    \<or> kt_key g = key \<and> (\<exists>t \<in> set ts. kt_key t = key \<and> kt_critical g = kt_critical t + c \<and> kt_normal g = kt_normal t + n)
    \<or> kt_key g = key \<and> key \<notin> kt_key ` set ts \<and> kt_critical g = c \<and> kt_normal g = n"
  using assms
proof (induction ts)
  case (Cons t ts)
  show ?case
  proof (cases "kt_key t = key")
    case True
    with Cons.prems have "key \<notin> kt_key ` set ts" by auto
    with True Cons.prems show ?thesis by (auto simp: image_iff)
  next
    case False
    with Cons show ?thesis by auto
  qed
qed simp

lemma keyItems_append: "keyItems K k (td @ td') = keyItems K k td @ keyItems K k td'"
  by (simp add: keyItems_def batchItems_def)

lemma countIf_simps [simp]:
  "countIf P [] = 0" "countIf P (xs @ ys) = countIf P xs + countIf P ys" "0 \<le> countIf P xs"
  by (simp_all add: countIf_def)

lemma keyGroups_spec:
  fixes td :: "'a Resource list" and K critical
  defines "groups \<equiv> snd (keyGroups (\<lambda>r. K (rAttrs r)) critical td)"
  shows "distinct (map kt_key groups)"
    "kt_key ` set groups = (\<lambda>r. K (rAttrs r)) ` set td"
    "g \<in> set groups \<Longrightarrow> kt_critical g = countIf critical (keyItems K (kt_key g) td)
       \<and> kt_normal g = countIf (\<lambda>x. \<not> critical x) (keyItems K (kt_key g) td)"
proof -
  have "distinct (map kt_key groups) \<and> kt_key ` set groups = (\<lambda>r. K (rAttrs r)) ` set td
    \<and> (\<forall>g \<in> set groups. kt_critical g = countIf critical (keyItems K (kt_key g) td)
       \<and> kt_normal g = countIf (\<lambda>x. \<not> critical x) (keyItems K (kt_key g) td))"
    unfolding groups_def
  proof (induction td rule: rev_induct)
    case (snoc r td)
    let ?ts = "snd (keyGroups (\<lambda>r. K (rAttrs r)) critical td)" and ?k = "K (rAttrs r)"
    let ?new = "tallyAdd ?k (countIf critical (resItems r)) (countIf (\<lambda>x. \<not> critical x) (resItems r)) ?ts"
    have eq: "snd (keyGroups (\<lambda>r. K (rAttrs r)) critical (td @ [r])) = ?new" by (simp add: keyGroups_def)
    have dist: "distinct (map kt_key ?ts)" and keys: "kt_key ` set ?ts = (\<lambda>r. K (rAttrs r)) ` set td"
      and IH: "\<And>t. t \<in> set ?ts \<Longrightarrow> kt_critical t = countIf critical (keyItems K (kt_key t) td)
         \<and> kt_normal t = countIf (\<lambda>x. \<not> critical x) (keyItems K (kt_key t) td)"
      using snoc by auto
    have none: "keyItems K ?k td = []" if "?k \<notin> kt_key ` set ?ts"
    proof -
      have "filter (\<lambda>r'. K (rAttrs r') = ?k) td = []"
        using that unfolding keys filter_empty_conv by (metis image_eqI)
      then show ?thesis by (simp add: keyItems_def)
    qed
    have new: "kt_critical g = countIf critical (keyItems K (kt_key g) (td @ [r]))
       \<and> kt_normal g = countIf (\<lambda>x. \<not> critical x) (keyItems K (kt_key g) (td @ [r]))" if "g \<in> set ?new" for g
      using tallyAdd_member[OF dist that]
    proof (elim disjE conjE bexE)
      assume "g \<in> set ?ts" "kt_key g \<noteq> ?k"
      then show ?thesis using IH[of g] by (simp add: keyItems_append)
    next
      fix t assume "kt_key g = ?k" "t \<in> set ?ts" "kt_key t = ?k" "kt_critical g = kt_critical t + countIf critical (resItems r)"
        "kt_normal g = kt_normal t + countIf (\<lambda>x. \<not> critical x) (resItems r)"
      then show ?thesis using IH[of t] by (simp add: keyItems_append)
    next
      assume "kt_key g = ?k" "?k \<notin> kt_key ` set ?ts" "kt_critical g = countIf critical (resItems r)"
        "kt_normal g = countIf (\<lambda>x. \<not> critical x) (resItems r)"
      then show ?thesis using none by (simp add: keyItems_append)
    qed
    show ?case unfolding eq using tallyAdd_keys(2)[OF dist] new by (auto simp: tallyAdd_keys(1) keys)
  qed (simp add: keyGroups_def)
  then show "distinct (map kt_key groups)" "kt_key ` set groups = (\<lambda>r. K (rAttrs r)) ` set td"
    "g \<in> set groups \<Longrightarrow> kt_critical g = countIf critical (keyItems K (kt_key g) td)
       \<and> kt_normal g = countIf (\<lambda>x. \<not> critical x) (keyItems K (kt_key g) td)"
    by auto
qed

section \<open>Admission of the groups\<close>

text \<open>
  What the groups are granted, as a function of the key: the effect of the whole admission loop
  is written with it.
\<close>

definition granted_ok :: "keyTally list \<Rightarrow> (string \<Rightarrow> int) \<Rightarrow> bool" where
  "granted_ok groups grant \<longleftrightarrow> (\<forall>g \<in> set groups. 0 \<le> grant (kt_key g) \<and> grant (kt_key g) \<le> kt_normal g)"

definition sumGroups :: "(keyTally \<Rightarrow> int) \<Rightarrow> keyTally list \<Rightarrow> int" where
  "sumGroups f groups = sum_list (map f groups)"

lemma sumGroups_simps [simp]: "sumGroups f [] = 0" "sumGroups f (g # gs) = f g + sumGroups f gs"
  by (simp_all add: sumGroups_def)

definition admitted ::
  "'st rateLimitProcessor \<times> batchTally \<Rightarrow> keyTally list \<Rightarrow> (string \<Rightarrow> int) \<Rightarrow> 'st rateLimitProcessor \<times> batchTally \<Rightarrow> bool" where
  "admitted s groups grant s' \<longleftrightarrow>
     granted_ok groups grant
   \<and> rp_config (fst s') = rp_config (fst s) \<and> rp_limiter (fst s') = rp_limiter (fst s)
   \<and> forwarded (snd s') = forwarded (snd s) + sumGroups (\<lambda>g. kt_critical g + grant (kt_key g)) groups
   \<and> totalDenied (snd s') = totalDenied (snd s) + sumGroups (\<lambda>g. kt_normal g - grant (kt_key g)) groups
   \<and> (\<forall>g \<in> set groups. excessByKey (snd s') (kt_key g) = kt_normal g - grant (kt_key g))
   \<and> (\<forall>k. k \<notin> kt_key ` set groups \<longrightarrow> excessByKey (snd s') k = excessByKey (snd s) k)
   \<and> counterTotal ''received'' (fst s') = counterTotal ''received'' (fst s) + sumGroups (\<lambda>g. kt_critical g + kt_normal g) groups
   \<and> counterTotal ''allowed'' (fst s') = counterTotal ''allowed'' (fst s) + sumGroups (\<lambda>g. kt_critical g + grant (kt_key g)) groups
   \<and> counterTotal ''denied'' (fst s') = counterTotal ''denied'' (fst s) + sumGroups (\<lambda>g. kt_normal g - grant (kt_key g)) groups
   \<and> counterTotal ''preserved'' (fst s') = counterTotal ''preserved'' (fst s) + sumGroups kt_critical groups"

context storage
begin

lemma admitGroup_admitted:
  assumes ops: "envOps env = S" and inv: "inv (rp_storage rp)" and b: "budgets_ok (envCvt env) (rp_limiter rp) (kt_key g)"
    and nn: "0 \<le> kt_normal g" "0 \<le> kt_critical g" and ex: "excessByKey t (kt_key g) = 0"
  shows "\<exists>a. admitted (rp, t) [g] (\<lambda>_. a) (admitGroup env sig g (rp, t))
    \<and> inv (rp_storage (fst (admitGroup env sig g (rp, t))))"
proof -
  obtain a st where r: "AllowUpToNCtx (envCvt env) S (rp_limiter rp) (rp_storage rp) (kt_key g) (kt_normal g) = (a, st)" by force
  have a: "0 \<le> a" "a \<le> kt_normal g" "inv st"
    using AllowUpToNCtx_range[OF inv b, of "kt_normal g"] nn by (auto simp: r)
  have "admitted (rp, t) [g] (\<lambda>_. a) (admitGroup env sig g (rp, t))
      \<and> rp_storage (fst (admitGroup env sig g (rp, t))) = st"
    using a nn ex by (auto simp: admitted_def granted_ok_def admitGroup_def r ops Let_def)
  with a(3) show ?thesis by auto
qed

lemma admitGroups:
  assumes "envOps env = S" "inv (rp_storage rp)" "distinct (map kt_key groups)"
    and "\<forall>g \<in> set groups. budgets_ok (envCvt env) (rp_limiter rp) (kt_key g) \<and> 0 \<le> kt_normal g \<and> 0 \<le> kt_critical g
      \<and> excessByKey t (kt_key g) = 0"
  shows "\<exists>grant. admitted (rp, t) groups grant (fold (admitGroup env sig) groups (rp, t))
    \<and> inv (rp_storage (fst (fold (admitGroup env sig) groups (rp, t))))"
  using assms
proof (induction groups arbitrary: rp t)
  case Nil
  then show ?case by (simp add: admitted_def granted_ok_def)
next
  case (Cons g gs)
  obtain rp1 t1 where s1: "admitGroup env sig g (rp, t) = (rp1, t1)" by force
  obtain a where a: "admitted (rp, t) [g] (\<lambda>_. a) (rp1, t1)" "inv (rp_storage rp1)"
    using admitGroup_admitted[OF Cons.prems(1,2), of g t sig] Cons.prems(4) by (auto simp: s1)
  have "kt_key h \<noteq> kt_key g" if "h \<in> set gs" for h
    using Cons.prems(3) that by (metis distinct.simps(2) image_eqI list.set_map list.simps(9))
  then have "\<forall>h \<in> set gs. budgets_ok (envCvt env) (rp_limiter rp1) (kt_key h) \<and> 0 \<le> kt_normal h \<and> 0 \<le> kt_critical h
      \<and> excessByKey t1 (kt_key h) = 0"
    using Cons.prems(4) a(1) by (auto simp: admitted_def)
  then obtain grant where g: "admitted (rp1, t1) gs grant (fold (admitGroup env sig) gs (rp1, t1))"
    "inv (rp_storage (fst (fold (admitGroup env sig) gs (rp1, t1))))"
    using Cons.IH[OF Cons.prems(1) a(2), of t1] Cons.prems(3) by auto
  have eq: "(grant(kt_key g := a)) (kt_key h) = grant (kt_key h)" if "h \<in> set gs" for h
    using Cons.prems(3) that by (auto simp: image_iff)
  have sums: "sumGroups (\<lambda>h. f h ((grant(kt_key g := a)) (kt_key h))) gs = sumGroups (\<lambda>h. f h (grant (kt_key h))) gs" for f
    unfolding sumGroups_def by (intro arg_cong[where f = sum_list] map_cong refl) (simp only: eq)
  have notin: "kt_key g \<notin> kt_key ` set gs" using Cons.prems(3) by simp
  have "admitted (rp, t) (g # gs) (grant(kt_key g := a)) (fold (admitGroup env sig) (g # gs) (rp, t))"
    using a(1) g(1) notin sums[of "\<lambda>h x. kt_critical h + x"] sums[of "\<lambda>h x. kt_normal h - x"]
    by (auto simp: admitted_def granted_ok_def s1 eq image_iff)
  with g(2) show ?case by (auto simp: s1)
qed

end

section \<open>The admission of a batch\<close>

lemma seqRemoveIf_image:
  "(\<And>s x. h (fst (snd (f s x))) = h x) \<Longrightarrow> h ` set (fst (seqRemoveIf f s xs)) \<subseteq> h ` set xs"
  by (induction xs arbitrary: s) (auto simp: split_beta Let_def image_subset_iff)

lemma dropNormalByKey_attrs:
  "pdata_ok lib \<Longrightarrow> rAttrs ` set (dropNormalByKey lib critical resKeys ex td) \<subseteq> rAttrs ` set td"
  unfolding dropNormalByKey_closure
  by (simp only: pdata_okD, rule seqRemoveIf_image) (simp add: dropClosure_def split_beta Let_def)

lemma items_by_key:
  fixes h :: "'a list \<Rightarrow> int"
  assumes h: "h [] = 0" "\<And>xs ys. h (xs @ ys) = h xs + h ys"
    and "distinct ks" "\<forall>r \<in> set td. K (rAttrs r) \<in> set ks"
  shows "h (batchItems td) = (\<Sum>k\<leftarrow>ks. h (keyItems K k td))"
  using assms(4)
proof (induction td)
  case Nil
  show ?case by (simp add: sum_list_0 h)
next
  case (Cons r td)
  have "(\<Sum>k\<leftarrow>ks. h (keyItems K k (r # td)))
      = (\<Sum>k\<leftarrow>ks. (if k = K (rAttrs r) then h (resItems r) else 0) + h (keyItems K k td))"
    by (intro arg_cong[where f = sum_list] map_cong) (auto simp: h)
  also have "\<dots> = (\<Sum>k\<leftarrow>ks. if k = K (rAttrs r) then h (resItems r) else 0) + (\<Sum>k\<leftarrow>ks. h (keyItems K k td))"
    by (simp add: sum_list_addf)
  also have "(\<Sum>k\<leftarrow>ks. if k = K (rAttrs r) then h (resItems r) else 0) = h (resItems r)"
    using assms(3) Cons.prems by (simp add: sum_list_distinct_conv_sum_set)
  finally show ?case using Cons by (simp add: h)
qed

lemma countIf_split: "countIf P xs + countIf (\<lambda>x. \<not> P x) xs = int (length xs)"
  using sum_length_filter_compl[of P xs] by (simp add: countIf_def)

text \<open>
  The specification of an admission: each key has a grant of its normal items; what the batch
  becomes is, per key, the batch without its first ungranted normal items.
\<close>

definition admission ::
  "(attrs \<Rightarrow> string) \<Rightarrow> ('a \<Rightarrow> bool) \<Rightarrow> (string \<Rightarrow> int) \<Rightarrow> 'a Resource list \<Rightarrow> 'a Resource list \<Rightarrow> bool" where
  "admission K critical grant td out \<longleftrightarrow>
     (\<forall>k. 0 \<le> grant k \<and> grant k \<le> countIf (\<lambda>x. \<not> critical x) (keyItems K k td)
        \<and> keyItems K k out
          = dropFirst (nat (countIf (\<lambda>x. \<not> critical x) (keyItems K k td) - grant k)) (\<lambda>x. \<not> critical x) (keyItems K k td))"

lemma admission_critical:
  "admission K critical grant td out \<Longrightarrow> filter critical (keyItems K k out) = filter critical (keyItems K k td)"
  using filter_dropFirst_other[of "\<lambda>x. \<not> critical x"] by (auto simp: admission_def)

lemma admission_count:
  assumes "admission K critical grant td out"
  shows "int (length (keyItems K k out)) = countIf critical (keyItems K k td) + grant k"
proof -
  let ?n = "nat (countIf (\<lambda>x. \<not> critical x) (keyItems K k td) - grant k)"
  have g: "0 \<le> grant k" "grant k \<le> countIf (\<lambda>x. \<not> critical x) (keyItems K k td)"
    and k: "keyItems K k out = dropFirst ?n (\<lambda>x. \<not> critical x) (keyItems K k td)"
    using assms by (auto simp: admission_def)
  have n: "?n \<le> length (filter (\<lambda>x. \<not> critical x) (keyItems K k td))" using g by (simp add: countIf_def)
  then have "?n \<le> length (keyItems K k td)" using length_filter_le order_trans by blast
  with n g show ?thesis
    using countIf_split[of critical "keyItems K k td"] by (simp add: k length_dropFirst of_nat_diff)
qed

lemma sum_zero:
  fixes f :: "'a \<Rightarrow> int"
  shows "(\<And>x. x \<in> set xs \<Longrightarrow> 0 \<le> f x) \<Longrightarrow> (\<Sum>x\<leftarrow>xs. f x) \<le> 0 \<Longrightarrow> x \<in> set xs \<Longrightarrow> f x = 0"
proof (induction xs)
  case (Cons y xs)
  have "0 \<le> (\<Sum>x\<leftarrow>xs. f x)" using Cons.prems(1) by (intro sum_list_nonneg) auto
  with Cons show ?case by (auto; force)
qed simp

text \<open>The tallies of the groups add up to the batch.\<close>

lemma groups_sums:
  fixes td :: "'a Resource list"
  assumes groups: "groups = snd (keyGroups (\<lambda>r. K (rAttrs r)) critical td)"
  shows "sumGroups kt_critical groups = countIf critical (batchItems td)"
    "sumGroups (\<lambda>g. kt_critical g + kt_normal g) groups = int (length (batchItems td))"
    "sumGroups (\<lambda>g. kt_critical g + gr (kt_key g)) groups
      = (\<Sum>k\<leftarrow>map kt_key groups. countIf critical (keyItems K k td) + gr k)"
    "sumGroups (\<lambda>g. kt_normal g - gr (kt_key g)) groups
      = int (length (batchItems td)) - (\<Sum>k\<leftarrow>map kt_key groups. countIf critical (keyItems K k td) + gr k)"
proof -
  note G = keyGroups_spec[where K = K and critical = critical and td = td, folded groups]
  have cover: "\<forall>r \<in> set td. K (rAttrs r) \<in> set (map kt_key groups)" using G(2) by auto
  have by_key: "sumGroups (\<lambda>g. f (kt_critical g) (kt_normal g) (kt_key g)) groups
      = (\<Sum>k\<leftarrow>map kt_key groups. f (countIf critical (keyItems K k td)) (countIf (\<lambda>x. \<not> critical x) (keyItems K k td)) k)" for f
    unfolding sumGroups_def list.map_comp comp_def
    by (intro arg_cong[where f = sum_list] map_cong refl) (simp add: G(3))
  show "sumGroups kt_critical groups = countIf critical (batchItems td)"
    unfolding by_key[of "\<lambda>c n k. c"] by (rule items_by_key[OF _ _ G(1) cover, symmetric]) simp_all
  show tot: "sumGroups (\<lambda>g. kt_critical g + kt_normal g) groups = int (length (batchItems td))"
    unfolding by_key[of "\<lambda>c n k. c + n"] countIf_split
    by (rule items_by_key[where h = "\<lambda>xs. int (length xs)", OF _ _ G(1) cover, symmetric]) simp_all
  show all: "sumGroups (\<lambda>g. kt_critical g + gr (kt_key g)) groups
      = (\<Sum>k\<leftarrow>map kt_key groups. countIf critical (keyItems K k td) + gr k)"
    by (rule by_key[of "\<lambda>c n k. c + gr k"])
  have "sumGroups (\<lambda>g. kt_normal g - gr (kt_key g)) groups + sumGroups (\<lambda>g. kt_critical g + gr (kt_key g)) groups
      = sumGroups (\<lambda>g. kt_critical g + kt_normal g) groups"
    unfolding sumGroups_def sum_list_addf[symmetric] by (simp add: algebra_simps)
  then show "sumGroups (\<lambda>g. kt_normal g - gr (kt_key g)) groups
      = int (length (batchItems td)) - (\<Sum>k\<leftarrow>map kt_key groups. countIf critical (keyItems K k td) + gr k)"
    using tot all by simp
qed

text \<open>
  \<open>covers\<close>: the keys of a batch, each once. The grants of the keys give the size of what goes out.
\<close>

definition covers :: "(attrs \<Rightarrow> string) \<Rightarrow> string list \<Rightarrow> 'a Resource list \<Rightarrow> bool" where
  "covers K ks td \<longleftrightarrow> distinct ks \<and> (\<forall>r \<in> set td. K (rAttrs r) \<in> set ks)"

definition allowance :: "(attrs \<Rightarrow> string) \<Rightarrow> ('a \<Rightarrow> bool) \<Rightarrow> (string \<Rightarrow> int) \<Rightarrow> string list \<Rightarrow> 'a Resource list \<Rightarrow> int" where
  "allowance K critical grant ks td = (\<Sum>k\<leftarrow>ks. countIf critical (keyItems K k td) + grant k)"

lemma covers_items:
  "covers K ks td \<Longrightarrow> int (length (batchItems td)) = (\<Sum>k\<leftarrow>ks. int (length (keyItems K k td)))"
  "covers K ks td \<Longrightarrow> countIf P (batchItems td) = (\<Sum>k\<leftarrow>ks. countIf P (keyItems K k td))"
  unfolding covers_def
  by (rule items_by_key[where h = "\<lambda>xs. int (length xs)"]; simp) (rule items_by_key[where h = "countIf P"]; simp)

lemma keyItems_uncovered:
  assumes "covers K ks td" "k \<notin> set ks" shows "keyItems K k td = []"
proof -
  have "filter (\<lambda>r. K (rAttrs r) = k) td = []" using assms by (auto simp: filter_empty_conv covers_def)
  then show ?thesis by (simp add: keyItems_def)
qed

lemma admission_size:
  assumes "admission K critical grant td out" "rAttrs ` set out \<subseteq> rAttrs ` set td" "covers K ks td"
  shows "int (length (batchItems out)) = allowance K critical grant ks td"
proof -
  have "\<forall>r \<in> set out. K (rAttrs r) \<in> set ks" using assms(2,3) by (force simp: image_subset_iff covers_def)
  with assms(3) have "covers K ks out" by (simp add: covers_def)
  then show ?thesis by (simp add: covers_items admission_count[OF assms(1)] allowance_def)
qed

lemma admission_full:
  assumes cover: "covers K ks td" and grant: "\<And>k. 0 \<le> grant k \<and> grant k \<le> countIf (\<lambda>x. \<not> critical x) (keyItems K k td)"
    and full: "int (length (batchItems td)) \<le> allowance K critical grant ks td"
  shows "admission K critical grant td td"
proof -
  let ?f = "\<lambda>k. countIf (\<lambda>x. \<not> critical x) (keyItems K k td) - grant k"
  have "(\<Sum>k\<leftarrow>ks. ?f k) + allowance K critical grant ks td
      = (\<Sum>k\<leftarrow>ks. countIf critical (keyItems K k td) + countIf (\<lambda>x. \<not> critical x) (keyItems K k td))"
    unfolding allowance_def sum_list_addf[symmetric] by (simp add: algebra_simps)
  with full have "(\<Sum>k\<leftarrow>ks. ?f k) \<le> 0" by (simp add: countIf_split covers_items(1)[OF cover])
  then have "?f k = 0" if "k \<in> set ks" for k using that grant by (intro sum_zero[of ks ?f]) auto
  moreover have "?f k = 0" if "k \<notin> set ks" for k
    using keyItems_uncovered[OF cover that] grant[of k] by simp
  ultimately have "countIf (\<lambda>x. \<not> critical x) (keyItems K k td) = grant k" for k by fastforce
  then show ?thesis using grant by (simp add: admission_def)
qed

context storage
begin

text \<open>The admission loop, in terms of one grant per key.\<close>

lemma admitBatch:
  assumes ops: "envOps env = S" and inv: "inv (rp_storage rp)"
    and b: "\<forall>r \<in> set td. budgets_ok (envCvt env) (rp_limiter rp) (K (rAttrs r))"
    and groups: "groups = snd (keyGroups (\<lambda>r. K (rAttrs r)) critical td)"
    and s': "s' = fold (admitGroup env sig) groups (rp, noTally)" and ks: "ks = map kt_key groups"
  obtains grant where
    "\<forall>k. 0 \<le> grant k \<and> grant k \<le> countIf (\<lambda>x. \<not> critical x) (keyItems K k td)"
    "\<forall>k. excessByKey (snd s') k = countIf (\<lambda>x. \<not> critical x) (keyItems K k td) - grant k"
    "forwarded (snd s') = allowance K critical grant ks td"
    "totalDenied (snd s') = int (length (batchItems td)) - allowance K critical grant ks td"
    "counterTotal ''received'' (fst s') = counterTotal ''received'' rp + int (length (batchItems td))"
    "counterTotal ''allowed'' (fst s') = counterTotal ''allowed'' rp + allowance K critical grant ks td"
    "counterTotal ''denied'' (fst s') = counterTotal ''denied'' rp + (int (length (batchItems td)) - allowance K critical grant ks td)"
    "counterTotal ''preserved'' (fst s') = counterTotal ''preserved'' rp + countIf critical (batchItems td)"
    "covers K ks td" "inv (rp_storage (fst s'))"
proof -
  note G = keyGroups_spec[where K = K and critical = critical and td = td, folded groups]
  have cover: "covers K ks td" using G(1,2) by (auto simp: covers_def ks)
  have "budgets_ok (envCvt env) (rp_limiter rp) (kt_key g)" if "g \<in> set groups" for g
  proof -
    have "kt_key g \<in> (\<lambda>r. K (rAttrs r)) ` set td" using that G(2) by blast
    then show ?thesis using b by auto
  qed
  then have "\<exists>grant. admitted (rp, noTally) groups grant s' \<and> inv (rp_storage (fst s'))"
    unfolding s' using G by (intro admitGroups[OF ops inv]) (auto simp: noTally_def)
  then obtain gr where gr: "admitted (rp, noTally) groups gr s'" "inv (rp_storage (fst s'))" by blast
  define grant where "grant k = (if k \<in> set ks then gr k else 0)" for k
  have none: "keyItems K k td = []" if "k \<notin> kt_key ` set groups" for k
    using that by (intro keyItems_uncovered[OF cover]) (simp add: ks)
  have A: "allowance K critical grant ks td = (\<Sum>k\<leftarrow>map kt_key groups. countIf critical (keyItems K k td) + gr k)"
    unfolding allowance_def ks by (intro arg_cong[where f = sum_list] map_cong refl) (auto simp: grant_def ks)
  note sums = groups_sums(1,2)[OF groups] groups_sums(3,4)[OF groups, of gr, folded A]
  show thesis
  proof (rule that[of grant])
    show "\<forall>k. 0 \<le> grant k \<and> grant k \<le> countIf (\<lambda>x. \<not> critical x) (keyItems K k td)"
      using gr(1) G(3) none by (auto simp: grant_def ks admitted_def granted_ok_def)
    show "\<forall>k. excessByKey (snd s') k = countIf (\<lambda>x. \<not> critical x) (keyItems K k td) - grant k"
    proof
      fix k
      show "excessByKey (snd s') k = countIf (\<lambda>x. \<not> critical x) (keyItems K k td) - grant k"
        using gr(1) G(3) none by (cases "k \<in> kt_key ` set groups") (auto simp: admitted_def grant_def ks noTally_def)
    qed
  qed (use gr sums cover in \<open>auto simp: admitted_def noTally_def\<close>)
qed

text \<open>One grant per key explains the batch, the counters and the error.\<close>

lemma processItems_spec:
  assumes ops: "envOps env = S" and inv: "inv (rp_storage rp)" and lib: "pdata_ok lib"
    and b: "\<forall>r \<in> set td. budgets_ok (envCvt env) (rp_limiter rp) (K (rAttrs r))"
    and run: "processItems env sig (keyGroups (\<lambda>r. K (rAttrs r)) critical td)
      (\<lambda>ks ex. dropNormalByKey lib critical ks ex td) td rp = ((out, err), rp')"
  obtains grant A where
    "\<forall>k. 0 \<le> grant k \<and> grant k \<le> countIf (\<lambda>x. \<not> critical x) (keyItems K k td)"
    "counterTotal ''received'' rp' = counterTotal ''received'' rp + int (length (batchItems td))"
    "counterTotal ''allowed'' rp' = counterTotal ''allowed'' rp + A"
    "counterTotal ''denied'' rp' = counterTotal ''denied'' rp + (int (length (batchItems td)) - A)"
    "counterTotal ''preserved'' rp' = counterTotal ''preserved'' rp + countIf critical (batchItems td)"
    "countIf critical (batchItems td) \<le> A" "inv (rp_storage rp')"
    "err = None \<Longrightarrow> DropOnLimit (rp_config rp) \<Longrightarrow> admission K critical grant td out \<and> int (length (batchItems out)) = A"
    "err \<noteq> None \<Longrightarrow> DropOnLimit (rp_config rp) \<and> out = td \<and> A = 0"
    "\<not> DropOnLimit (rp_config rp) \<Longrightarrow> err = None \<and> out = td"
proof -
  define groups where groups: "groups = snd (keyGroups (\<lambda>r. K (rAttrs r)) critical td)"
  define s' where s': "s' = fold (admitGroup env sig) groups (rp, noTally)"
  define ks where ks: "ks = map kt_key groups"
  obtain grant where B: "\<forall>k. 0 \<le> grant k \<and> grant k \<le> countIf (\<lambda>x. \<not> critical x) (keyItems K k td)"
    "\<forall>k. excessByKey (snd s') k = countIf (\<lambda>x. \<not> critical x) (keyItems K k td) - grant k"
    "forwarded (snd s') = allowance K critical grant ks td"
    "totalDenied (snd s') = int (length (batchItems td)) - allowance K critical grant ks td"
    "counterTotal ''received'' (fst s') = counterTotal ''received'' rp + int (length (batchItems td))"
    "counterTotal ''allowed'' (fst s') = counterTotal ''allowed'' rp + allowance K critical grant ks td"
    "counterTotal ''denied'' (fst s') = counterTotal ''denied'' rp + (int (length (batchItems td)) - allowance K critical grant ks td)"
    "counterTotal ''preserved'' (fst s') = counterTotal ''preserved'' rp + countIf critical (batchItems td)"
    "covers K ks td" "inv (rp_storage (fst s'))"
    by (rule admitBatch[OF ops inv b groups s' ks])
  let ?A = "allowance K critical grant ks td" and ?keys = "map (\<lambda>r. K (rAttrs r)) td"
  define out' where "out' = dropNormalByKey lib critical ?keys (excessByKey (snd s')) td"
  have adm: "admission K critical grant td out'"
    using dropNormalByKey_items[OF lib, of K _ critical td] B(1) by (auto simp: admission_def out'_def B(2))
  have size: "int (length (batchItems out')) = ?A"
    using adm dropNormalByKey_attrs[OF lib] B(9) unfolding out'_def by (rule admission_size)
  have all: "admission K critical grant td td \<and> int (length (batchItems td)) = ?A" if "int (length (batchItems td)) - ?A \<le> 0"
    using admission_full[of K ks td grant critical] admission_size[of K critical grant td td ks] B(1,9) that by auto
  have crit: "countIf critical (batchItems td) \<le> ?A"
    unfolding covers_items(2)[OF B(9)] allowance_def using B(1) by (intro sum_list_mono) auto
  have eq: "processItems env sig (keyGroups (\<lambda>r. K (rAttrs r)) critical td)
      (\<lambda>ks ex. dropNormalByKey lib critical ks ex td) td rp =
    (if 0 < int (length (batchItems td)) - ?A \<and> DropOnLimit (rp_config rp)
     then if ?A = 0 then ((td, Some (limitExceededError env (rp_config rp) (deniedKey (snd s')) (totalDenied (snd s')))), fst s')
          else ((out', None), fst s')
     else ((td, None), fst s'))"
  proof (cases "td = []")
    case True
    then show ?thesis using crit by (simp add: processItems_def s' groups keyGroups_def)
  next
    case False
    have "keyGroups (\<lambda>r. K (rAttrs r)) critical td = (?keys, groups)" by (simp add: groups keyGroups_def)
    with False show ?thesis by (simp add: processItems_def s'[symmetric] B(3,4) out'_def split_beta Let_def)
  qed
  show thesis
  proof (rule that[of grant ?A])
    show "err = None \<Longrightarrow> DropOnLimit (rp_config rp) \<Longrightarrow> admission K critical grant td out \<and> int (length (batchItems out)) = ?A"
      using run adm size all by (auto simp: eq split: if_splits)
  qed (use run B crit in \<open>auto simp: eq split: if_splits\<close>)
qed

end

end
