(* ===== verification/Rl_Signals.thy ===== *)
theory Rl_Signals
  imports Rl_Admission
begin

text \<open>
  Whole-trace admission and metrics: a removal by trace id leaves no trace partial, the plan of
  drops stays within the grant, metrics are admitted key by key; then the properties of the
  rate limit processor.
\<close>

section \<open>Whole traces\<close>

lemma dropTracesByID_items:
  assumes "pdata_ok lib"
  shows "batchItems (dropTracesByID lib td ids) = filter (\<lambda>sp. spTraceID sp \<notin> set ids) (batchItems td)"
proof (cases "ids = []")
  case False
  have "batchItems (dropTracesByID lib td ids)
      = map (\<lambda>(a, sc, x). x) (filter (\<lambda>(a, sc, sp). spTraceID sp \<notin> set ids) (tagged td))"
    using False prune_filter[OF assms, of "\<lambda>_ _ sp. spTraceID sp \<in> set ids"]
    by (simp add: dropTracesByID_def flip: tagged_items)
  also have "\<dots> = filter (\<lambda>sp. spTraceID sp \<notin> set ids) (map (\<lambda>(a, sc, x). x) (tagged td))"
    by (simp add: filter_map comp_def case_prod_unfold)
  finally show ?thesis by (simp only: tagged_items)
qed (simp add: dropTracesByID_def)

fun plan :: "traceTally list \<Rightarrow> int \<Rightarrow> int \<Rightarrow> traceID list \<times> int" where
  "plan [] kept allowed = ([], 0)"
| "plan ((t, n) # ts) kept allowed =
     (if kept + n \<le> allowed then plan ts (kept + n) allowed
      else (let (ids, dropped) = plan ts kept allowed in (t # ids, n + dropped)))"

lemma plan_fold:
  "snd (fold (\<lambda>(tid, n) (kept, dropIDs, dropped).
      if kept + n \<le> allowed then (kept + n, dropIDs, dropped)
      else (kept, dropIDs @ [tid], dropped + n)) ts (kept, ids, d))
   = (ids @ fst (plan ts kept allowed), d + snd (plan ts kept allowed))"
  by (induction ts kept allowed arbitrary: ids d rule: plan.induct) (simp_all add: split_beta Let_def)

lemma planTraceDrops_plan: "planTraceDrops ts allowed = plan ts 0 allowed"
  using plan_fold[of allowed ts 0 "[]" 0] by (simp add: planTraceDrops_def split_beta)

lemma plan_sums:
  assumes "\<forall>(t, n) \<in> set ts. 0 \<le> n" "distinct (map fst ts)" "kept \<le> allowed"
  shows "fst ` set (filter (\<lambda>(t, n). t \<in> set (fst (plan ts kept allowed))) ts) = set (fst (plan ts kept allowed))"
    "snd (plan ts kept allowed) = sum_list (map snd (filter (\<lambda>(t, n). t \<in> set (fst (plan ts kept allowed))) ts))"
    "kept + sum_list (map snd (filter (\<lambda>(t, n). t \<notin> set (fst (plan ts kept allowed))) ts)) \<le> allowed"
    "0 \<le> snd (plan ts kept allowed)"
proof -
  have "set (fst (plan ts kept allowed)) \<subseteq> fst ` set ts
    \<and> snd (plan ts kept allowed) = sum_list (map snd (filter (\<lambda>(t, n). t \<in> set (fst (plan ts kept allowed))) ts))
    \<and> kept + sum_list (map snd (filter (\<lambda>(t, n). t \<notin> set (fst (plan ts kept allowed))) ts)) \<le> allowed
    \<and> 0 \<le> snd (plan ts kept allowed)"
    using assms
  proof (induction ts kept allowed rule: plan.induct)
    case (2 t n ts kept allowed)
    have t: "t \<notin> fst ` set ts" and n: "0 \<le> n" using 2(3,4) by auto
    then have tn: "(t, m) \<notin> set ts" for m by (metis fst_conv image_eqI)
    have other: "filter (\<lambda>a. fst a = t \<or> fst a \<in> X) ts = filter (\<lambda>a. fst a \<in> X) ts"
      "filter (\<lambda>a. fst a \<noteq> t \<and> fst a \<notin> X) ts = filter (\<lambda>a. fst a \<notin> X) ts" for X
      using tn by (auto intro!: filter_cong)
    show ?case
    proof (cases "kept + n \<le> allowed")
      case True
      then show ?thesis using 2(1)[OF True] 2(3,4) t by auto
    next
      case False
      then show ?thesis using 2(2)[OF False] 2(3-5) n by (auto simp: split_beta Let_def other)
    qed
  qed simp_all
  then show "fst ` set (filter (\<lambda>(t, n). t \<in> set (fst (plan ts kept allowed))) ts) = set (fst (plan ts kept allowed))"
    "snd (plan ts kept allowed) = sum_list (map snd (filter (\<lambda>(t, n). t \<in> set (fst (plan ts kept allowed))) ts))"
    "kept + sum_list (map snd (filter (\<lambda>(t, n). t \<notin> set (fst (plan ts kept allowed))) ts)) \<le> allowed"
    "0 \<le> snd (plan ts kept allowed)"
    by force+
qed

definition tally_ok :: "traceTally list \<Rightarrow> bool" where
  "tally_ok ts \<longleftrightarrow> distinct (map fst ts) \<and> (\<forall>(t, n) \<in> set ts. 0 \<le> n)"

lemma traceAdd_keys: "fst ` set (traceAdd tid ts) = insert tid (fst ` set ts)"
  by (induction tid ts rule: traceAdd.induct) (simp_all add: insert_commute)

lemma traceAdd_ok: "tally_ok ts \<Longrightarrow> tally_ok (traceAdd tid ts)"
proof (induction ts)
  case (Cons x ts)
  obtain t n where x: "x = (t, n)" by force
  have ts: "tally_ok ts" "t \<notin> fst ` set ts" "0 \<le> n" using Cons.prems by (auto simp: tally_ok_def x)
  show ?case
  proof (cases "t = tid")
    case True
    then show ?thesis using Cons.prems by (auto simp: tally_ok_def x)
  next
    case False
    then have "t \<notin> fst ` set (traceAdd tid ts)" using ts(2) by (simp add: traceAdd_keys)
    with False Cons.IH[OF ts(1)] ts(3) show ?thesis by (auto simp: tally_ok_def x)
  qed
qed (simp add: tally_ok_def)

lemma analyze_total:
  assumes "analyzeTracesIn td idx pe = (p, n, ts)"
  shows "p + n = int (length (spansIn td idx))" "0 \<le> p" "0 \<le> n" "tally_ok ts"
proof -
  have "case fold (\<lambda>sp (preserved, normal, normalTraces).
           if spTraceID sp \<in> C then (preserved + 1, normal, normalTraces)
           else (preserved, normal + 1, traceAdd (spTraceID sp) normalTraces)) spans (p0, n0, ts0) of (p, n, ts) \<Rightarrow>
      p + n = p0 + n0 + int (length spans) \<and> 0 \<le> p \<and> 0 \<le> n \<and> tally_ok ts"
    if "0 \<le> p0" "0 \<le> n0" "tally_ok ts0" for spans :: "Span list" and C and p0 n0 :: int and ts0
    using that
  proof (induction spans arbitrary: p0 n0 ts0)
    case (Cons sp spans)
    show ?case
      using Cons.IH[of "p0 + 1" n0 ts0] Cons.IH[of p0 "n0 + 1" "traceAdd (spTraceID sp) ts0"] Cons.prems
      by (cases "spTraceID sp \<in> C") (simp_all add: traceAdd_ok split_beta)
  qed simp
  from this[where ?p0.0 = 0 and ?n0.0 = 0 and ?ts0.0 = "[]" and spans = "spansIn td idx"
      and C = "set (criticalTraces pe (spansIn td idx))"] assms
  show "p + n = int (length (spansIn td idx))" "0 \<le> p" "0 \<le> n" "tally_ok ts"
    by (simp_all add: analyzeTracesIn_def Let_def tally_ok_def)
qed

definition balanced :: "'st rateLimitProcessor \<Rightarrow> 'st rateLimitProcessor \<Rightarrow> bool" where
  "balanced rp rp' \<longleftrightarrow>
     counterTotal ''received'' rp' - counterTotal ''received'' rp
     = (counterTotal ''allowed'' rp' - counterTotal ''allowed'' rp) + (counterTotal ''denied'' rp' - counterTotal ''denied'' rp)"

lemma balanced_refl: "balanced rp rp" and balanced_trans: "balanced rp rp1 \<Longrightarrow> balanced rp1 rp2 \<Longrightarrow> balanced rp rp2"
  by (simp_all add: balanced_def)

lemma plan_dropped_nonneg:
  "tally_ok ts \<Longrightarrow> 0 \<le> snd (planTraceDrops ts allowed)"
proof -
  have "\<forall>(t, n) \<in> set ts. 0 \<le> n \<Longrightarrow> 0 \<le> snd (plan ts kept allowed)" for kept
    by (induction ts kept allowed rule: plan.induct) (auto simp: split_beta Let_def)
  then show "tally_ok ts \<Longrightarrow> 0 \<le> snd (planTraceDrops ts allowed)" by (simp add: tally_ok_def planTraceDrops_plan)
qed

lemma admitTraces_balanced: "balanced rp (fst (admitTraces env td keys key (rp, b)))"
proof -
  obtain p n ts where an: "analyzeTracesIn td (resByKey keys key) (PreserveErrors (rp_config rp)) = (p, n, ts)"
    by (metis prod_cases3)
  show ?thesis
    using plan_dropped_nonneg[OF analyze_total(4)[OF an]]
    by (auto simp: admitTraces_def an balanced_def split_beta Let_def order.order_iff_strict)
qed

lemma processTracesByTrace_balanced: "balanced rp (snd (processTracesByTrace env lib md td rp))"
proof -
  have "balanced rp (fst (fold (admitTraces env td keys) order (rp, b)))" for keys order b
  proof (induction order arbitrary: rp b)
    case (Cons k order)
    obtain rp1 b1 where s: "admitTraces env td keys k (rp, b) = (rp1, b1)" by force
    show ?case using admitTraces_balanced[of rp env td keys k b] Cons[of rp1 b1] by (auto simp: s intro: balanced_trans)
  qed (simp add: balanced_refl)
  then show ?thesis by (simp add: processTracesByTrace_def split_beta Let_def balanced_refl)
qed

section \<open>Metrics\<close>

lemma admitMetrics_step:
  "\<exists>ok st. fst (admitMetrics env counts key (rp, b))
      = (if ok then addItems ''allowed'' (counts key) key ''metrics'' ''all'' ((addItems ''received'' (counts key) key ''metrics'' ''all'' rp)\<lparr>rp_storage := st\<rparr>)
         else warnDrop (addItems ''denied'' (counts key) key ''metrics'' ''normal'' ((addItems ''received'' (counts key) key ''metrics'' ''all'' rp)\<lparr>rp_storage := st\<rparr>)))
    \<and> snd (admitMetrics env counts key (rp, b))
      = (if ok then b\<lparr>mb_forwarded := mb_forwarded b + counts key\<rparr>
         else b\<lparr>mb_deniedKeys := mb_deniedKeys b @ [key], mb_totalDenied := mb_totalDenied b + counts key, mb_deniedKey := key\<rparr>)"
  by (auto simp: admitMetrics_def split_beta Let_def)

text \<open>Which keys the metrics admission denies, and what that does to the tallies and counters.\<close>

lemma admitMetrics_run:
  assumes "distinct order" "set (mb_deniedKeys b) \<inter> set order = {}"
  shows "\<exists>denied \<subseteq> set order. case fold (admitMetrics env counts) order (rp, b) of (rp', b') \<Rightarrow>
      set (mb_deniedKeys b') = set (mb_deniedKeys b) \<union> denied
    \<and> mb_forwarded b' = mb_forwarded b + (\<Sum>k \<in> set order - denied. counts k)
    \<and> mb_totalDenied b' = mb_totalDenied b + (\<Sum>k \<in> denied. counts k)
    \<and> counterTotal ''received'' rp' = counterTotal ''received'' rp + (\<Sum>k \<in> set order. counts k)
    \<and> counterTotal ''allowed'' rp' = counterTotal ''allowed'' rp + (\<Sum>k \<in> set order - denied. counts k)
    \<and> counterTotal ''denied'' rp' = counterTotal ''denied'' rp + (\<Sum>k \<in> denied. counts k)"
  using assms
proof (induction order arbitrary: rp b)
  case (Cons k order)
  obtain rp1 b1 where s: "admitMetrics env counts k (rp, b) = (rp1, b1)" by force
  obtain ok st where ok: "rp1 = (if ok then addItems ''allowed'' (counts k) k ''metrics'' ''all'' ((addItems ''received'' (counts k) k ''metrics'' ''all'' rp)\<lparr>rp_storage := st\<rparr>)
         else warnDrop (addItems ''denied'' (counts k) k ''metrics'' ''normal'' ((addItems ''received'' (counts k) k ''metrics'' ''all'' rp)\<lparr>rp_storage := st\<rparr>)))"
    "b1 = (if ok then b\<lparr>mb_forwarded := mb_forwarded b + counts k\<rparr>
         else b\<lparr>mb_deniedKeys := mb_deniedKeys b @ [k], mb_totalDenied := mb_totalDenied b + counts k, mb_deniedKey := k\<rparr>)"
    using admitMetrics_step[of env counts k rp b] by (auto simp: s)
  have "set (mb_deniedKeys b1) \<inter> set order = {}" using Cons.prems by (auto simp: ok(2))
  then obtain denied where d: "denied \<subseteq> set order" "case fold (admitMetrics env counts) order (rp1, b1) of (rp', b') \<Rightarrow>
      set (mb_deniedKeys b') = set (mb_deniedKeys b1) \<union> denied
    \<and> mb_forwarded b' = mb_forwarded b1 + (\<Sum>k \<in> set order - denied. counts k)
    \<and> mb_totalDenied b' = mb_totalDenied b1 + (\<Sum>k \<in> denied. counts k)
    \<and> counterTotal ''received'' rp' = counterTotal ''received'' rp1 + (\<Sum>k \<in> set order. counts k)
    \<and> counterTotal ''allowed'' rp' = counterTotal ''allowed'' rp1 + (\<Sum>k \<in> set order - denied. counts k)
    \<and> counterTotal ''denied'' rp' = counterTotal ''denied'' rp1 + (\<Sum>k \<in> denied. counts k)"
    using Cons.IH[of b1 rp1] Cons.prems(1) by auto
  have k: "k \<notin> set order" "k \<notin> denied" "finite denied" using Cons.prems(1) d(1) by (auto intro: finite_subset)
  show ?case
  proof (cases ok)
    case True
    have "set (k # order) - denied = insert k (set order - denied)" using k by auto
    with True d k show ?thesis by (intro exI[of _ denied]) (auto simp: s ok split: prod.splits)
  next
    case False
    have "set (k # order) - insert k denied = set order - denied" using k by auto
    with False d k show ?thesis by (intro exI[of _ "insert k denied"]) (auto simp: s ok split: prod.splits)
  qed
qed simp

lemma keyOrder_spec: "distinct (keyOrder ks) \<and> set (keyOrder ks) = set ks"
proof (induction ks rule: rev_induct)
  case (snoc k ks)
  then show ?case by (auto simp: keyOrder_def)
qed (simp add: keyOrder_def)

lemma keyCounts_sum:
  "keyCounts (map f xs) (map c xs) = (\<lambda>key. \<Sum>x\<leftarrow>xs. if f x = key then c x else 0)"
proof (induction xs rule: rev_induct)
  case (snoc x xs)
  have "keyCounts (map f (xs @ [x])) (map c (xs @ [x]))
      = (keyCounts (map f xs) (map c xs))(f x := keyCounts (map f xs) (map c xs) (f x) + c x)"
    by (simp add: keyCounts_def)
  also have "\<dots> = (\<lambda>key. \<Sum>x\<leftarrow>xs @ [x]. if f x = key then c x else 0)"
    unfolding snoc by (auto simp: fun_eq_iff)
  finally show ?case .
qed (simp add: keyCounts_def)

lemma sum_by_key:
  assumes "finite X"
  shows "(\<Sum>k \<in> X. (\<Sum>x\<leftarrow>xs. if f x = k then c x else (0 :: int))) = (\<Sum>x\<leftarrow>filter (\<lambda>x. f x \<in> X) xs. c x)"
  using assms by (induction xs) (simp_all add: sum.distrib sum.delta)

lemma rmResources_by_index:
  assumes "resKeys = pre @ map f td"
  shows "fst (seqRemoveIf (\<lambda>idx0 r. let idx = idx0 + 1 in (resKeys ! nat idx \<in> X, r, idx)) (int (length pre) - 1) td)
    = filter (\<lambda>r. f r \<notin> X) td"
  using assms
proof (induction td arbitrary: pre)
  case (Cons r td)
  have "resKeys ! length pre = f r" using Cons.prems by simp
  moreover have "fst (seqRemoveIf (\<lambda>idx0 r. let idx = idx0 + 1 in (resKeys ! nat idx \<in> X, r, idx)) (int (length pre)) td)
    = filter (\<lambda>r. f r \<notin> X) td"
    using Cons.IH[of "pre @ [f r]"] Cons.prems by simp
  ultimately show ?case by (simp add: split_beta Let_def)
qed simp

text \<open>Metrics are admitted or denied key by key, and the counters say which.\<close>

lemma processMetrics_spec:
  assumes lib: "pdata_ok lib" and K: "K = keyForResource env (rp_config rp) meta"
    and run: "processMetrics env lib meta md rp = ((out, err), rp')"
  obtains denied where
    "counterTotal ''received'' rp' = counterTotal ''received'' rp + countDataPoints md"
    "counterTotal ''allowed'' rp' = counterTotal ''allowed'' rp + countDataPoints (filter (\<lambda>rm. K (rAttrs rm) \<notin> denied) md)"
    "counterTotal ''denied'' rp' = counterTotal ''denied'' rp + countDataPoints (filter (\<lambda>rm. K (rAttrs rm) \<in> denied) md)"
    "err = None \<Longrightarrow> DropOnLimit (rp_config rp) \<Longrightarrow> 0 < countDataPoints (filter (\<lambda>rm. K (rAttrs rm) \<in> denied) md) \<Longrightarrow>
       out = filter (\<lambda>rm. K (rAttrs rm) \<notin> denied) md"
    "\<not> DropOnLimit (rp_config rp) \<or> countDataPoints (filter (\<lambda>rm. K (rAttrs rm) \<in> denied) md) \<le> 0 \<Longrightarrow> err = None \<and> out = md"
    "err \<noteq> None \<Longrightarrow> out = md \<and> countDataPoints (filter (\<lambda>rm. K (rAttrs rm) \<notin> denied) md) = 0"
proof (cases "md = []")
  case True
  with run show thesis by (intro that[of "{}"]) (auto simp: processMetrics_def countDataPoints_def)
next
  case False
  define keys where "keys = map (\<lambda>rm. K (rAttrs rm)) md"
  define counts where "counts = keyCounts keys (map countDataPointsIn md)"
  define b0 where "b0 = \<lparr>mb_forwarded = 0, mb_totalDenied = 0, mb_deniedKey = '''', mb_deniedKeys = []\<rparr>"
  define s' where "s' = fold (admitMetrics env counts) (keyOrder keys) (rp, b0)"
  obtain denied where d: "denied \<subseteq> set keys" "case s' of (rp', b') \<Rightarrow>
      set (mb_deniedKeys b') = denied
    \<and> mb_forwarded b' = (\<Sum>k \<in> set keys - denied. counts k)
    \<and> mb_totalDenied b' = (\<Sum>k \<in> denied. counts k)
    \<and> counterTotal ''received'' rp' = counterTotal ''received'' rp + (\<Sum>k \<in> set keys. counts k)
    \<and> counterTotal ''allowed'' rp' = counterTotal ''allowed'' rp + (\<Sum>k \<in> set keys - denied. counts k)
    \<and> counterTotal ''denied'' rp' = counterTotal ''denied'' rp + (\<Sum>k \<in> denied. counts k)"
    using admitMetrics_run[where order = "keyOrder keys" and b = b0 and env = env and counts = counts and rp = rp] keyOrder_spec[of keys]
    by (auto simp: b0_def s'_def)
  have sum: "(\<Sum>k \<in> X. counts k) = countDataPoints (filter (\<lambda>rm. K (rAttrs rm) \<in> X) md)" if "finite X" for X
    unfolding counts_def keys_def keyCounts_sum countDataPoints_def using that by (rule sum_by_key)
  have fin: "finite denied" using d(1) by (rule finite_subset) simp
  have in_keys: "filter (\<lambda>rm. K (rAttrs rm) \<in> set keys \<and> K (rAttrs rm) \<notin> denied) md = filter (\<lambda>rm. K (rAttrs rm) \<notin> denied) md"
    "filter (\<lambda>rm. K (rAttrs rm) \<in> set keys) md = md"
    by (auto simp: keys_def intro!: filter_cong filter_True)
  have sums: "(\<Sum>k \<in> set keys - denied. counts k) = countDataPoints (filter (\<lambda>rm. K (rAttrs rm) \<notin> denied) md)"
    "(\<Sum>k \<in> denied. counts k) = countDataPoints (filter (\<lambda>rm. K (rAttrs rm) \<in> denied) md)"
    "(\<Sum>k \<in> set keys. counts k) = countDataPoints md"
    by (simp_all add: sum fin in_keys)
  have rm: "fst (seqRemoveIf (\<lambda>idx0 rm. let idx = idx0 + 1 in (keys ! nat idx \<in> denied, rm, idx)) (- 1) md)
      = filter (\<lambda>rm. K (rAttrs rm) \<notin> denied) md"
    using rmResources_by_index[of keys "[]" "\<lambda>rm. K (rAttrs rm)" md denied] by (simp add: keys_def)
  have "processMetrics env lib meta md rp =
    (if 0 < countDataPoints (filter (\<lambda>rm. K (rAttrs rm) \<in> denied) md) \<and> DropOnLimit (rp_config rp)
     then if countDataPoints (filter (\<lambda>rm. K (rAttrs rm) \<notin> denied) md) = 0
          then ((md, Some (limitExceededError env (rp_config rp) (mb_deniedKey (snd s')) (mb_totalDenied (snd s')))), fst s')
          else ((filter (\<lambda>rm. K (rAttrs rm) \<notin> denied) md, None), fst s')
     else ((md, None), fst s'))"
    using False d(2) sums rm
    by (simp add: processMetrics_def pdata_okD[OF lib] K[symmetric] keys_def[symmetric] counts_def[symmetric]
        b0_def[symmetric] s'_def[symmetric] split_beta Let_def)
  with d(2) run sums show thesis by (intro that[of denied]) (auto split: if_splits prod.splits)
qed

end
