(* ===== verification/Rl_Properties.thy ===== *)
theory Rl_Properties
  imports Rl_Signals
begin

text \<open>
  What the rate limit processor does to a batch, on every storage backend: which spans and log
  records go out, whole traces, metrics, rejections, the counters' bookkeeping and their bounded
  labels, and the throttled warning.
\<close>

section \<open>Example\<close>

text \<open>A processor on the limiter and the storage of the example in \<^verbatim>\<open>Rate_Limiter\<close>.\<close>

definition exampleEnv :: "memoryStorage rlEnv" where
  "exampleEnv = \<lparr>envCvt = (\<lambda>_. 0), envOps = memoryOps,
     envAsString = (\<lambda>v. case v of VStr s \<Rightarrow> s | _ \<Rightarrow> ''''), envUni = (\<lambda>s. s), envDetailsOk = True\<rparr>"

definition exampleProc :: "Config \<Rightarrow> memoryStorage rateLimitProcessor" where
  "exampleProc cfg = \<lparr>rp_config = cfg, rp_limiter = exampleLimiter, rp_storage = exampleStorage,
     metricKeyAllow = None, seenMetricKeys = Some [], rp_maxMetricKeys = 100, keyLabelOn = (\<lambda>_. True),
     rp_gaugeReg = False, rp_dropLog = \<lparr>dl_last = None, dl_suppressed = 0\<rparr>, rp_measurements = [], rp_clock = sconst 0\<rparr>"

definition exampleResource :: "string \<Rightarrow> 'a list \<Rightarrow> 'a Resource" where
  "exampleResource svc items = \<lparr>rAttrs = [(''service.name'', VStr svc)], rScopes = [\<lparr>scName = '''', scItems = items\<rparr>]\<rparr>"

definition exampleSpan :: "8 word \<Rightarrow> StatusCode \<Rightarrow> Span" where
  "exampleSpan t c = \<lparr>spTraceID = [t], spName = '''', spStatus = c, spAttributes = []\<rparr>"

text \<open>One error span and seven others.\<close>

definition exampleTraces :: Traces where
  "exampleTraces = [exampleResource ''a'' (exampleSpan 0 StatusCodeError # map (\<lambda>t. exampleSpan t StatusCodeOk) [1, 2, 3, 4, 5, 6, 7])]"

lemma exampleProc_sel [simp]:
  "rp_config (exampleProc cfg) = cfg" "rp_limiter (exampleProc cfg) = exampleLimiter"
  "rp_storage (exampleProc cfg) = exampleStorage"
  by (simp_all add: exampleProc_def)

lemma exampleEnv_sel [simp]:
  "envOps exampleEnv = memoryOps" "envCvt exampleEnv = (\<lambda>_. 0)" "envAsString exampleEnv (VStr s) = s"
  by (simp_all add: exampleEnv_def)

lemma example_items [simp]:
  "resItems (exampleResource svc items) = items"
  "LimitType cfg = ''service_name'' \<Longrightarrow> keyForResource exampleEnv cfg md (rAttrs (exampleResource svc items)) = svc"
  by (simp_all add: exampleResource_def resItems_def keyForResource_def)

lemma exampleConfig_sel [simp]:
  "LimitType createDefaultConfig = ''service_name''" "DropOnLimit createDefaultConfig" "PreserveErrors createDefaultConfig"
  "\<not> TraceIDAware createDefaultConfig"
  by (simp_all add: createDefaultConfig_def)

lemma exampleSpan_critical [simp]:
  "isCriticalSpan (exampleSpan t c) \<longleftrightarrow> c = StatusCodeError" "spTraceID (exampleSpan t c) = [t]"
  by (simp_all add: isCriticalSpan_def exampleSpan_def)

lemma exampleTraces_run:
  "fst (processTraces exampleEnv seqLib (\<lambda>_. []) exampleTraces (exampleProc createDefaultConfig))
   = ([exampleResource ''a'' (exampleSpan 0 StatusCodeError # map (\<lambda>t. exampleSpan t StatusCodeOk) [3, 4, 5, 6, 7])], None)"
proof -
  have kg: "tracesKeyGroups exampleEnv createDefaultConfig (\<lambda>_. []) exampleTraces
      = ([''a''], [\<lparr>kt_key = ''a'', kt_critical = 1, kt_normal = 7\<rparr>])"
    by (simp add: tracesKeyGroups_def keyGroups_def countIf_def criticalSpan_def exampleTraces_def)
  have t: "snd (admitGroup exampleEnv ''traces'' \<lparr>kt_key = ''a'', kt_critical = 1, kt_normal = 7\<rparr>
       (exampleProc createDefaultConfig, noTally))
      = \<lparr>forwarded = 6, totalDenied = 2, deniedKey = ''a'', excessByKey = (\<lambda>_. 0)(''a'' := 2)\<rparr>"
    by (simp add: admitGroup_def example_run noTally_def Let_def)
  define spans where "spans = exampleSpan 0 StatusCodeError # map (\<lambda>t. exampleSpan t StatusCodeOk) [1, 2, 3, 4, 5, 6, 7]"
  have items: "dropFirst 2 (\<lambda>sp. \<not> isCriticalSpan sp) spans
      = exampleSpan 0 StatusCodeError # map (\<lambda>t. exampleSpan t StatusCodeOk) [3, 4, 5, 6, 7]"
    by (simp add: spans_def numeral_2_eq_2)
  have "dropNormalSpansByKey seqLib [exampleResource ''a'' spans] [''a''] ((\<lambda>_. 0)(''a'' := 2)) True
      = [exampleResource ''a'' (exampleSpan 0 StatusCodeError # map (\<lambda>t. exampleSpan t StatusCodeOk) [3, 4, 5, 6, 7])]"
    by (simp add: dropNormalSpansByKey_def dropNormalByKey_def exampleResource_def seqLib_def pruneScopes_def
        dropNormalItem_run items)
  then have "dropNormalSpansByKey seqLib exampleTraces [''a''] ((\<lambda>_. 0)(''a'' := 2)) True
      = [exampleResource ''a'' (exampleSpan 0 StatusCodeError # map (\<lambda>t. exampleSpan t StatusCodeOk) [3, 4, 5, 6, 7])]"
    by (simp only: exampleTraces_def spans_def)
  then show ?thesis by (simp add: processTraces_def processItems_def kg t split_beta) (simp add: exampleTraces_def)
qed

section \<open>Spans and log records\<close>

text \<open>What every property below assumes of the backend and of the limits of a batch's keys.\<close>

definition rp_ready :: "('st \<Rightarrow> bool) \<Rightarrow> 'st rlEnv \<Rightarrow> metadata \<Rightarrow> 'st rateLimitProcessor \<Rightarrow> 'a Resource list \<Rightarrow> bool" where
  "rp_ready I env md rp td \<longleftrightarrow> storage (envOps env) I \<and> I (rp_storage rp)
     \<and> (\<forall>r \<in> set td. budgets_ok (envCvt env) (rp_limiter rp) (keyForResource env (rp_config rp) md (rAttrs r)))"

lemma example_ready: "rp_ready ms_inv exampleEnv md (exampleProc cfg) td"
  by (simp add: rp_ready_def example_inv example_budgets mem.storage_axioms)

lemma processTraces_items:
  "\<not> TraceIDAware (rp_config rp) \<Longrightarrow> processTraces env lib md td rp =
   processItems env ''traces'' (keyGroups (\<lambda>r. keyForResource env (rp_config rp) md (rAttrs r)) (criticalSpan (rp_config rp)) td)
     (\<lambda>ks ex. dropNormalByKey lib (criticalSpan (rp_config rp)) ks ex td) td rp"
  by (simp add: processTraces_def tracesKeyGroups_def dropNormalSpansByKey_def criticalSpan_def[abs_def])

lemma processLogs_items:
  "processLogs env lib md ld rp =
   processItems env ''logs'' (keyGroups (\<lambda>r. keyForResource env (rp_config rp) md (rAttrs r)) (criticalLog (rp_config rp)) ld)
     (\<lambda>ks ex. dropNormalByKey lib (criticalLog (rp_config rp)) ks ex ld) ld rp"
  by (simp add: processLogs_def logsKeyGroups_def dropNormalLogsByKey_def criticalLog_def[abs_def])



text \<open>
  C14. A batch of log records is rejected only when \<^verbatim>\<open>drop_on_limit\<close> is set and nothing of it is
  admitted: it is unchanged, every record counts as denied and none as allowed, and it holds no
  record that \<^verbatim>\<open>preserve_errors\<close> protects. Otherwise it is forwarded.
\<close>

theorem logs_rejected_only_whole:
  assumes "rp_ready I env md rp ld" "pdata_ok lib" "fst (ConsumeLogs env lib md ld rp) = Rejected e"
  shows "DropOnLimit (rp_config rp) \<and> fst (fst (processLogs env lib md ld rp)) = ld
    \<and> counterTotal ''allowed'' (snd (ConsumeLogs env lib md ld rp)) = counterTotal ''allowed'' rp
    \<and> counterTotal ''denied'' (snd (ConsumeLogs env lib md ld rp)) = counterTotal ''denied'' rp + int (length (batchItems ld))
    \<and> filter (criticalLog (rp_config rp)) (batchItems ld) = []"
proof -
  have st: "storage (envOps env) I" and I: "I (rp_storage rp)"
    and b: "\<forall>r \<in> set ld. budgets_ok (envCvt env) (rp_limiter rp) (keyForResource env (rp_config rp) md (rAttrs r))"
    using assms(1) by (auto simp: rp_ready_def)
  obtain out err rp' where r: "processLogs env lib md ld rp = ((out, err), rp')" by (metis prod.exhaust)
  with assms(3) have err: "err \<noteq> None" "snd (ConsumeLogs env lib md ld rp) = rp'"
    by (auto simp: ConsumeLogs_def forward_def split: option.splits)
  show ?thesis
    apply (rule storage.processItems_spec[OF st refl I assms(2) b r[unfolded processLogs_items]])
    subgoal for grant A using err by (simp add: r countIf_def)
    done
qed

section \<open>Bookkeeping\<close>

lemma countDataPoints_split:
  "countDataPoints (filter P md) + countDataPoints (filter (\<lambda>r. \<not> P r) md) = countDataPoints md"
  by (induction md) (auto simp: countDataPoints_def)

lemma processMetrics_balanced: "pdata_ok lib \<Longrightarrow> balanced rp (snd (processMetrics env lib md mts rp))"
proof -
  assume ok: "pdata_ok lib"
  obtain out err rp' where r: "processMetrics env lib md mts rp = ((out, err), rp')" by (metis prod.exhaust)
  show ?thesis
    apply (rule processMetrics_spec[OF ok refl r])
    subgoal for denied
      using countDataPoints_split[of "\<lambda>rm. keyForResource env (rp_config rp) md (rAttrs rm) \<in> denied" mts]
      by (simp add: r balanced_def)
    done
qed

lemma processItems_balanced:
  assumes "rp_ready I env md rp xs" "pdata_ok lib"
  shows "balanced rp (snd (processItems env sig (keyGroups (\<lambda>r. keyForResource env (rp_config rp) md (rAttrs r)) critical xs)
      (\<lambda>ks ex. dropNormalByKey lib critical ks ex xs) xs rp))"
proof -
  have st: "storage (envOps env) I" and I: "I (rp_storage rp)"
    and b: "\<forall>r \<in> set xs. budgets_ok (envCvt env) (rp_limiter rp) (keyForResource env (rp_config rp) md (rAttrs r))"
    using assms(1) by (auto simp: rp_ready_def)
  obtain out err rp' where r: "processItems env sig (keyGroups (\<lambda>r. keyForResource env (rp_config rp) md (rAttrs r)) critical xs)
    (\<lambda>ks ex. dropNormalByKey lib critical ks ex xs) xs rp = ((out, err), rp')" by (metis prod.exhaust)
  show ?thesis by (rule storage.processItems_spec[OF st refl I assms(2) b r]) (simp add: r balanced_def)
qed

lemma snd_forward [simp]: "snd (forward r) = snd r"
  by (simp add: forward_def split: prod.split option.split)

text \<open>
  C15. Every item received is counted as either allowed or denied, for every signal and mode,
  whatever is decided about the batch.
\<close>

theorem counters_balance:
  assumes "rp_ready I env md rp td" "rp_ready I env md rp ld" "pdata_ok lib" "pdata_ok lib'" "pdata_ok lib''"
  shows "balanced rp (snd (ConsumeTraces env lib md td rp))
    \<and> balanced rp (snd (ConsumeLogs env lib' md ld rp))
    \<and> balanced rp (snd (ConsumeMetrics env lib'' md mts rp))"
proof -
  have "balanced rp (snd (processTraces env lib md td rp))"
  proof (cases "TraceIDAware (rp_config rp)")
    case True
    then show ?thesis by (simp add: processTraces_def processTracesByTrace_balanced)
  next
    case False
    show ?thesis unfolding processTraces_items[OF False] by (rule processItems_balanced[OF assms(1,3)])
  qed
  then show ?thesis
    using processItems_balanced[OF assms(2,4)] processMetrics_balanced[OF assms(5)]
    by (simp add: ConsumeTraces_def ConsumeLogs_def ConsumeMetrics_def processLogs_items)
qed

text \<open>Seven log records of severity INFO on one key with a bucket of five.\<close>

definition exampleLog :: LogRecord where
  "exampleLog = \<lparr>lrSeverityNumber = 9, lrSeverityText = ''INFO'', lrBody = VStr ''x'', lrAttributes = []\<rparr>"

theorem counters_balance_witness:
  "balanced (exampleProc createDefaultConfig) (snd (ConsumeTraces exampleEnv seqLib (\<lambda>_. []) exampleTraces (exampleProc createDefaultConfig)))
   \<and> balanced (exampleProc createDefaultConfig) (snd (ConsumeLogs exampleEnv seqLib (\<lambda>_. []) [exampleResource ''a'' (replicate 7 exampleLog)] (exampleProc createDefaultConfig)))
   \<and> balanced (exampleProc createDefaultConfig) (snd (ConsumeMetrics exampleEnv seqLib (\<lambda>_. []) [] (exampleProc createDefaultConfig)))"
  by (rule counters_balance[OF example_ready example_ready]) simp_all

section \<open>Whole traces\<close>

text \<open>
  C12. With \<^verbatim>\<open>trace_id_aware\<close> no trace goes out in part: of each trace of the batch all spans are
  forwarded, in order, or none.
\<close>

theorem no_partial_traces:
  assumes "pdata_ok lib" "TraceIDAware (rp_config rp)" "fst (ConsumeTraces env lib md td rp) = Forwarded out"
  shows "filter (\<lambda>sp. spTraceID sp = tid) (batchItems out) \<in> {[], filter (\<lambda>sp. spTraceID sp = tid) (batchItems td)}"
proof -
  obtain ids where "batchItems out = filter (\<lambda>sp. spTraceID sp \<notin> set ids) (batchItems td)"
    using assms(2,3) dropTracesByID_items[OF assms(1)]
    by (auto simp: ConsumeTraces_def processTraces_def processTracesByTrace_def forward_def split_beta Let_def
        split: if_splits option.splits intro: that[of "[]"])
  then have "filter (\<lambda>sp. spTraceID sp = tid) (batchItems out)
      = (if tid \<in> set ids then [] else filter (\<lambda>sp. spTraceID sp = tid) (batchItems td))"
    by (auto simp: filter_empty_conv intro: filter_cong)
  then show ?thesis by simp
qed

text \<open>
  A trace whose spans are in the resources of two keys: seven spans under one, an error span
  under the other.
\<close>

definition exampleSplitTrace :: Traces where
  "exampleSplitTrace = [exampleResource ''a'' (replicate 7 (exampleSpan 1 StatusCodeOk)),
     exampleResource ''b'' [exampleSpan 1 StatusCodeError]]"

abbreviation traceConfig :: Config where
  "traceConfig \<equiv> createDefaultConfig\<lparr>TraceIDAware := True\<rparr>"

lemma exampleSplit_tallies:
  "analyzeTracesIn exampleSplitTrace [0] True = (0, 7, [([1], 7)])"
  "analyzeTracesIn exampleSplitTrace [Suc 0] True = (1, 0, [])"
  "planTraceDrops [([1], 7)] 5 = ([[1]], 7)" "planTraceDrops [] 0 = ([], 0)"
  "resByKey [''a'', ''b''] ''a'' = [0]" "resByKey [''a'', ''b''] ''b'' = [Suc 0]" "keyOrder [''a'', ''b''] = [''a'', ''b'']"
proof -
  have r7: "replicate 7 x = [x, x, x, x, x, x, x]" for x :: Span by (simp add: numeral_eq_Suc)
  show "analyzeTracesIn exampleSplitTrace [0] True = (0, 7, [([1], 7)])"
    "analyzeTracesIn exampleSplitTrace [Suc 0] True = (1, 0, [])"
    by (auto simp: analyzeTracesIn_def exampleSplitTrace_def spansIn_def criticalTraces_def r7)
qed (simp_all add: planTraceDrops_def resByKey_def keyOrder_def upt_rec)

lemma exampleSplit_run:
  "fst (processTraces exampleEnv seqLib (\<lambda>_. []) exampleSplitTrace (exampleProc traceConfig)) = ([], None)
   \<and> counterTotal ''allowed'' (snd (processTraces exampleEnv seqLib (\<lambda>_. []) exampleSplitTrace (exampleProc traceConfig))) = 1
   \<and> counterTotal ''preserved'' (snd (processTraces exampleEnv seqLib (\<lambda>_. []) exampleSplitTrace (exampleProc traceConfig))) = 1"
proof -
  define b0 where "b0 = \<lparr>tb_forwarded = 0, tb_totalDenied = 0, tb_deniedKey = '''', tb_dropAll = []\<rparr>"
  obtain rp1 b1 where s1: "admitTraces exampleEnv exampleSplitTrace [''a'', ''b''] ''a'' (exampleProc traceConfig, b0) = (rp1, b1)"
    by force
  have t1: "b1 = \<lparr>tb_forwarded = 0, tb_totalDenied = 7, tb_deniedKey = ''a'', tb_dropAll = [[1]]\<rparr>"
    "rp_config rp1 = traceConfig" "counterTotal ''allowed'' rp1 = 0" "counterTotal ''preserved'' rp1 = 0"
    using s1 by (auto simp: admitTraces_def exampleSplit_tallies example_run b0_def Let_def)
      (simp_all add: counterTotal_def exampleProc_def)
  obtain rp2 b2 where s2: "admitTraces exampleEnv exampleSplitTrace [''a'', ''b''] ''b'' (rp1, b1) = (rp2, b2)" by force
  have t2: "b2 = \<lparr>tb_forwarded = 1, tb_totalDenied = 7, tb_deniedKey = ''a'', tb_dropAll = [[1]]\<rparr>"
    "counterTotal ''allowed'' rp2 = 1" "counterTotal ''preserved'' rp2 = 1"
    using s2 t1 by (auto simp: admitTraces_def exampleSplit_tallies AllowUpToNCtx_def Let_def)
  have "clean (dropTracesByID seqLib exampleSplitTrace [[1]])"
    by (simp add: dropTracesByID_def pruneResources_clean)
  moreover have "batchItems (dropTracesByID seqLib exampleSplitTrace [[1]]) = []"
    by (simp add: dropTracesByID_items exampleSplitTrace_def)
  ultimately have "dropTracesByID seqLib exampleSplitTrace [[1]] = []" by (simp add: clean_empty)
  moreover have keys: "map (\<lambda>rs. keyForResource exampleEnv traceConfig (\<lambda>_. []) (rAttrs rs)) exampleSplitTrace = [''a'', ''b'']"
    by (simp add: exampleSplitTrace_def)
  moreover have "exampleSplitTrace \<noteq> []" by (simp add: exampleSplitTrace_def)
  ultimately show ?thesis
    using t2 by (simp add: processTraces_def processTracesByTrace_def keys exampleSplit_tallies s1 s2 b0_def[symmetric])
qed

theorem no_partial_traces_witness:
  "fst (ConsumeTraces exampleEnv seqLib (\<lambda>_. []) exampleSplitTrace (exampleProc traceConfig)) = Forwarded []
   \<and> filter (\<lambda>sp. spTraceID sp = [1]) (batchItems []) \<in> {[], filter (\<lambda>sp. spTraceID sp = [1]) (batchItems exampleSplitTrace)}"
proof -
  have r: "fst (ConsumeTraces exampleEnv seqLib (\<lambda>_. []) exampleSplitTrace (exampleProc traceConfig)) = Forwarded []"
    using exampleSplit_run by (auto simp: ConsumeTraces_def forward_def split: prod.splits)
  show ?thesis using r no_partial_traces[OF seqLib_ok _ r, of "[1]"] by simp
qed

text \<open>
  An error span can be lost although \<^verbatim>\<open>preserve_errors\<close> is on: with \<^verbatim>\<open>trace_id_aware\<close>, a
  trace that one key has no tokens for is removed from the whole batch, with the error span
  another key was to preserve; that span is still counted as allowed and preserved, and an empty
  batch goes to the next consumer.
\<close>

theorem split_trace_loses_error_span:
  "PreserveErrors traceConfig
   \<and> filter isCriticalSpan (batchItems exampleSplitTrace) \<noteq> []
   \<and> fst (ConsumeTraces exampleEnv seqLib (\<lambda>_. []) exampleSplitTrace (exampleProc traceConfig)) = Forwarded []
   \<and> counterTotal ''allowed'' (snd (ConsumeTraces exampleEnv seqLib (\<lambda>_. []) exampleSplitTrace (exampleProc traceConfig))) = 1
   \<and> counterTotal ''preserved'' (snd (ConsumeTraces exampleEnv seqLib (\<lambda>_. []) exampleSplitTrace (exampleProc traceConfig))) = 1"
proof -
  have "filter isCriticalSpan (batchItems exampleSplitTrace) \<noteq> []"
    by (simp add: exampleSplitTrace_def)
  then show ?thesis
    using exampleSplit_run by (auto simp: ConsumeTraces_def forward_def split: prod.splits)
qed

section \<open>Rejection\<close>

text \<open>The example's key with an empty bucket.\<close>

definition drainedStorage :: memoryStorage where
  "drainedStorage = exampleStorage\<lparr>buckets := [(globalKey, (NewTokenBucket 10 Second 0)\<lparr>tokens := 5\<rparr>),
                                               (''a'', (NewTokenBucket 5 Second 0)\<lparr>tokens := 0\<rparr>)]\<rparr>"

definition drainedProc :: "memoryStorage rateLimitProcessor" where
  "drainedProc = (exampleProc createDefaultConfig)\<lparr>rp_storage := drainedStorage\<rparr>"

lemma drained_inv: "ms_inv drainedStorage"
  using mem.AllowUpToNCtx_range[OF example_inv example_budgets[of "\<lambda>_. 0" "''a''"], of 7]
  by (simp add: example_run drainedStorage_def)

lemma drained_run: "fst (AllowUpToNCtx cvt memoryOps exampleLimiter drainedStorage ''a'' 7) = 0"
  by (simp add: AllowUpToNCtx_def example_limits msAllowUpToN_def msRefund_def getOrCreate_def putBucket_def timeNow_def
      drainedStorage_def exampleStorage_def newMemoryStorage_def globalKey_def tb_eval)

lemma drained_ready: "rp_ready ms_inv exampleEnv md drainedProc td"
  by (simp add: rp_ready_def drained_inv example_budgets mem.storage_axioms drainedProc_def)

theorem logs_rejected_only_whole_witness:
  "\<exists>e. fst (ConsumeLogs exampleEnv seqLib (\<lambda>_. []) [exampleResource ''a'' (replicate 7 exampleLog)] drainedProc) = Rejected e
   \<and> counterTotal ''denied'' (snd (ConsumeLogs exampleEnv seqLib (\<lambda>_. []) [exampleResource ''a'' (replicate 7 exampleLog)] drainedProc)) = 7"
proof -
  let ?ld = "[exampleResource ''a'' (replicate 7 exampleLog)]" and ?g = "\<lparr>kt_key = ''a'', kt_critical = 0, kt_normal = 7\<rparr>"
  have kg: "logsKeyGroups exampleEnv createDefaultConfig (\<lambda>_. []) ?ld = ([''a''], [?g])"
    by (simp add: logsKeyGroups_def keyGroups_def countIf_def criticalLog_def isCriticalLog_def exampleLog_def SeverityNumberError_def)
  have t: "snd (admitGroup exampleEnv ''logs'' ?g (drainedProc, noTally))
      = \<lparr>forwarded = 0, totalDenied = 7, deniedKey = ''a'', excessByKey = (\<lambda>_. 0)(''a'' := 7)\<rparr>"
    by (simp add: admitGroup_def drained_run drainedProc_def noTally_def Let_def split_beta)
  have "\<exists>e. fst (ConsumeLogs exampleEnv seqLib (\<lambda>_. []) ?ld drainedProc) = Rejected e"
    by (simp add: ConsumeLogs_def processLogs_def processItems_def kg t split_beta forward_def drainedProc_def[THEN arg_cong[where f = rp_config]])
  then obtain e where e: "fst (ConsumeLogs exampleEnv seqLib (\<lambda>_. []) ?ld drainedProc) = Rejected e" ..
  have "counterTotal ''denied'' drainedProc = 0" by (simp add: drainedProc_def exampleProc_def counterTotal_def)
  with logs_rejected_only_whole[OF drained_ready seqLib_ok e] e show ?thesis by auto
qed

text \<open>
  C22. A rejection is permanent only if the configuration asks for it; otherwise it is a
  retryable \<^verbatim>\<open>ResourceExhausted\<close> whose retry delay, when it can be attached, is between 100
  milliseconds and 30 seconds, for every limit and every conversion of an out-of-range float.
\<close>

theorem retry_delay_bounds:
  "(case limitExceededError env cfg key denied of
     PermanentError k t d \<Rightarrow> RejectionMode cfg = ''permanent'' \<and> (k, t, d) = (key, LimitType cfg, denied)
   | ResourceExhausted k t d delay \<Rightarrow> RejectionMode cfg \<noteq> ''permanent'' \<and> (k, t, d) = (key, LimitType cfg, denied)
       \<and> (delay = None \<longleftrightarrow> \<not> envDetailsOk env) \<and> set_option delay \<subseteq> {100 * Millisecond .. 30 * Second})"
  by (auto simp: limitExceededError_def retryDelay_def split_beta Let_def Millisecond_def Second_def)

section \<open>Metrics\<close>


definition exampleMetrics :: Metrics where
  "exampleMetrics = [exampleResource ''a'' [\<lparr>mName = ''m'', mData = Gauge (replicate 7 \<lparr>dpAttributes = []\<rparr>)\<rparr>]]"


section \<open>Bounded metric labels\<close>

text \<open>The values of the \<^verbatim>\<open>key\<close> label the processor has reported, and how many the configuration allows.\<close>

definition keyLabels :: "'st rateLimitProcessor \<Rightarrow> string set" where
  "keyLabels rp = {v. \<exists>m \<in> set (rp_measurements rp). (''key'', v) \<in> set (me_attrs m)}"

definition labelBound :: "Config \<Rightarrow> nat" where
  "labelBound cfg = (if MetricsKeyAllowlist cfg \<noteq> [] then length (MetricsKeyAllowlist cfg)
     else if MaxMetricKeys cfg = 0 then nat defaultMaxMetricKeys else nat (MaxMetricKeys cfg)) + 1"

definition labels_inv :: "Config \<Rightarrow> 'st rateLimitProcessor \<Rightarrow> bool" where
  "labels_inv cfg rp \<longleftrightarrow>
     (case metricKeyAllow rp of
        Some allow \<Rightarrow> keyLabels rp \<subseteq> insert ''other'' (set allow) \<and> length allow + 1 \<le> labelBound cfg
      | None \<Rightarrow> (case seenMetricKeys rp of
           None \<Rightarrow> False
         | Some seen \<Rightarrow> keyLabels rp \<subseteq> insert ''other'' (set seen) \<and> int (length seen) \<le> rp_maxMetricKeys rp
             \<and> nat (rp_maxMetricKeys rp) + 1 \<le> labelBound cfg))"

inductive rp_reachable :: "'st rlEnv \<Rightarrow> Config \<Rightarrow> 'st rateLimitProcessor \<Rightarrow> bool" for env cfg where
  rp_new: "newRateLimitProcessor env (tel :: string option) reg shared clk cfg st = Inr rp \<Longrightarrow> rp_reachable env cfg rp"
| rp_traces: "rp_reachable env cfg rp \<Longrightarrow> rp_reachable env cfg (snd (ConsumeTraces env tlib md td rp))"
| rp_logs: "rp_reachable env cfg rp \<Longrightarrow> rp_reachable env cfg (snd (ConsumeLogs env llib md ld rp))"
| rp_metrics: "rp_reachable env cfg rp \<Longrightarrow> rp_reachable env cfg (snd (ConsumeMetrics env mlib md ms rp))"
| rp_gauges: "rp_reachable env cfg rp \<Longrightarrow> rp_reachable env cfg (snd (observeGauges env keys rp))"
| rp_shutdown: "rp_reachable env cfg rp \<Longrightarrow> rp_reachable env cfg (rpShutdown env rp)"

lemma labels_inv_storage [simp]:
  "labels_inv cfg (rp\<lparr>rp_storage := st\<rparr>) = labels_inv cfg rp" "labels_inv cfg (warnDrop rp) = labels_inv cfg rp"
  "labels_inv cfg (rp\<lparr>rp_gaugeReg := g\<rparr>) = labels_inv cfg rp"
  by (simp_all add: labels_inv_def keyLabels_def warnDrop_def split: option.split)

lemma keyLabels_addItems:
  "keyLabels (addItems c n key sig pr rp) =
   keyLabels rp \<union> (if keyLabelOn rp c then {fst (metricKey key rp)} else {})"
  by (auto simp: keyLabels_def addItems_def metricAttrs_def metricKey_frame split_beta Let_def)

lemma addItems_seen:
  "metricKeyAllow (addItems c n key sig pr rp) = metricKeyAllow rp"
  "rp_maxMetricKeys (addItems c n key sig pr rp) = rp_maxMetricKeys rp"
  "seenMetricKeys (addItems c n key sig pr rp)
    = (if keyLabelOn rp c then seenMetricKeys (snd (metricKey key rp)) else seenMetricKeys rp)"
  by (simp_all add: addItems_def metricAttrs_def metricKey_def split_beta Let_def split: option.split)

lemma labels_inv_addItems [simp]: "labels_inv cfg rp \<Longrightarrow> labels_inv cfg (addItems c n key sig pr rp)"
  by (auto simp: labels_inv_def keyLabels_addItems addItems_seen metricKey_def split: option.splits)

lemma labels_inv_admit:
  "labels_inv cfg rp \<Longrightarrow> labels_inv cfg (fst (fold (admitGroup env sig) groups (rp, b)))"
  "labels_inv cfg rp \<Longrightarrow> labels_inv cfg (fst (fold (admitTraces env td keys) order (rp, tb)))"
  "labels_inv cfg rp \<Longrightarrow> labels_inv cfg (fst (fold (admitMetrics env counts) order (rp, mb)))"
proof -
  have fold: "labels_inv cfg (fst s) \<Longrightarrow> labels_inv cfg (fst (fold f xs s))"
    if "\<And>x s. labels_inv cfg (fst s) \<Longrightarrow> labels_inv cfg (fst (f x s))"
    for f :: "'x \<Rightarrow> 'st rateLimitProcessor \<times> 'b \<Rightarrow> 'st rateLimitProcessor \<times> 'b" and xs s
    using that by (induction xs arbitrary: s) auto
  show "labels_inv cfg rp \<Longrightarrow> labels_inv cfg (fst (fold (admitGroup env sig) groups (rp, b)))"
    by (rule fold) (auto simp: admitGroup_def split_beta Let_def)
  show "labels_inv cfg rp \<Longrightarrow> labels_inv cfg (fst (fold (admitTraces env td keys) order (rp, tb)))"
    by (rule fold) (auto simp: admitTraces_def split_beta Let_def)
  show "labels_inv cfg rp \<Longrightarrow> labels_inv cfg (fst (fold (admitMetrics env counts) order (rp, mb)))"
    by (rule fold) (auto simp: admitMetrics_def split_beta Let_def)
qed

lemma labels_inv_gauges: "labels_inv cfg rp \<Longrightarrow> labels_inv cfg (snd (observeGauges env keys rp))"
  by (induction keys arbitrary: rp) (simp_all add: split_beta Let_def)

lemma labels_inv_new:
  assumes "newRateLimitProcessor env tel reg shared clk cfg st = Inr rp" "0 \<le> MaxMetricKeys cfg"
  shows "labels_inv cfg rp"
proof -
  have len: "length (remdups xs) \<le> length xs" for xs :: "string list" by (rule length_remdups_leq)
  show ?thesis using assms len
    by (auto simp: newRateLimitProcessor_def labels_inv_def keyLabels_def labelBound_def defaultMaxMetricKeys_def Let_def
        split: option.splits if_splits)
qed

lemma labels_inv_reachable:
  "rp_reachable env cfg rp \<Longrightarrow> 0 \<le> MaxMetricKeys cfg \<Longrightarrow> labels_inv cfg rp"
proof (induction rule: rp_reachable.induct)
  case rp_new
  then show ?case by (blast intro: labels_inv_new)
next
  case rp_traces
  then show ?case
    by (auto simp: ConsumeTraces_def processTraces_def processTracesByTrace_def processItems_def labels_inv_admit split_beta Let_def)
next
  case rp_logs
  then show ?case by (auto simp: ConsumeLogs_def processLogs_def processItems_def labels_inv_admit split_beta Let_def)
next
  case rp_metrics
  then show ?case by (auto simp: ConsumeMetrics_def processMetrics_def labels_inv_admit split_beta Let_def)
next
  case rp_gauges
  then show ?case by (simp add: labels_inv_gauges)
next
  case rp_shutdown
  then show ?case by (simp add: rpShutdown_def)
qed



section \<open>The plan of trace drops and the throttled warning\<close>

definition tallyOf :: "traceID list \<Rightarrow> traceTally list" where
  "tallyOf tids = fold traceAdd tids []"

lemma traceAdd_sum:
  "(\<Sum>(t, n)\<leftarrow>filter (\<lambda>(t, n). t \<in> X) (traceAdd tid ts). n)
   = (\<Sum>(t, n)\<leftarrow>filter (\<lambda>(t, n). t \<in> X) ts. n) + (if tid \<in> X then 1 else 0)"
  by (induction tid ts rule: traceAdd.induct) auto

lemma tallyOf_spec:
  "fst ` set (tallyOf tids) = set tids" "tally_ok (tallyOf tids)"
  "(\<Sum>(t, n)\<leftarrow>filter (\<lambda>(t, n). t \<in> X) (tallyOf tids). n) = countIf (\<lambda>t. t \<in> X) tids"
proof -
  have "fst ` set (tallyOf tids) = set tids \<and> tally_ok (tallyOf tids)
    \<and> (\<Sum>(t, n)\<leftarrow>filter (\<lambda>(t, n). t \<in> X) (tallyOf tids). n) = countIf (\<lambda>t. t \<in> X) tids"
    by (induction tids rule: rev_induct)
      (auto simp: tallyOf_def traceAdd_keys traceAdd_ok traceAdd_sum countIf_def tally_ok_def[of "[]"])
  then show "fst ` set (tallyOf tids) = set tids" "tally_ok (tallyOf tids)"
    "(\<Sum>(t, n)\<leftarrow>filter (\<lambda>(t, n). t \<in> X) (tallyOf tids). n) = countIf (\<lambda>t. t \<in> X) tids"
    by auto
qed

text \<open>The normal spans of an analysis: those of the traces with no protected error span.\<close>

lemma analyze_tally:
  assumes "analyzeTracesIn td idx pe = (p, n, ts)"
  shows "ts = tallyOf (map spTraceID (filter (\<lambda>sp. spTraceID sp \<notin> set (criticalTraces pe (spansIn td idx))) (spansIn td idx)))"
    "n = countIf (\<lambda>sp. spTraceID sp \<notin> set (criticalTraces pe (spansIn td idx))) (spansIn td idx)"
proof -
  have "fold (\<lambda>sp (preserved, normal, normalTraces).
           if spTraceID sp \<in> C then (preserved + 1, normal, normalTraces)
           else (preserved, normal + 1, traceAdd (spTraceID sp) normalTraces)) spans (0 :: int, 0 :: int, [])
      = (countIf (\<lambda>sp. spTraceID sp \<in> C) spans, countIf (\<lambda>sp. spTraceID sp \<notin> C) spans,
         tallyOf (map spTraceID (filter (\<lambda>sp. spTraceID sp \<notin> C) spans)))" for spans and C
    by (induction spans rule: rev_induct) (auto simp: tallyOf_def countIf_def)
  from this[of "set (criticalTraces pe (spansIn td idx))" "spansIn td idx"] assms
  show "ts = tallyOf (map spTraceID (filter (\<lambda>sp. spTraceID sp \<notin> set (criticalTraces pe (spansIn td idx))) (spansIn td idx)))"
    "n = countIf (\<lambda>sp. spTraceID sp \<notin> set (criticalTraces pe (spansIn td idx))) (spansIn td idx)"
    by (simp_all add: analyzeTracesIn_def Let_def)
qed

lemma plan_all:
  "\<forall>(t, n) \<in> set ts. 0 \<le> n \<Longrightarrow> kept + (\<Sum>(t, n)\<leftarrow>ts. n) \<le> allowed \<Longrightarrow> plan ts kept allowed = ([], 0)"
proof (induction ts kept allowed rule: plan.induct)
  case (2 t n ts kept allowed)
  have "0 \<le> (\<Sum>(t, n)\<leftarrow>ts. n)" using 2(3) by (intro sum_list_nonneg) auto
  with 2 show ?case by auto
qed simp

text \<open>
  C20. The traces kept by the plan fit the grant: the normal spans of the resources of a key are
  those kept, at most the grant, and those dropped; and when all fit, nothing is dropped.
\<close>

theorem trace_plan_within_grant:
  assumes "analyzeTracesIn td idx pe = (p, n, ts)" "planTraceDrops ts allowed = (ids, dropped)" "0 \<le> allowed"
  shows "0 \<le> dropped \<and> n - dropped \<le> allowed \<and> (n \<le> allowed \<longrightarrow> ids = [] \<and> dropped = 0)
    \<and> dropped = countIf (\<lambda>sp. spTraceID sp \<in> set ids) (spansIn td idx)"
proof -
  define C where "C = set (criticalTraces pe (spansIn td idx))"
  define normals where "normals = filter (\<lambda>sp. spTraceID sp \<notin> C) (spansIn td idx)"
  note an = analyze_tally[OF assms(1), folded C_def, folded normals_def]
  have ok: "tally_ok ts" "fst ` set ts = spTraceID ` set normals" by (simp_all add: an(1) tallyOf_spec)
  have sums: "(\<Sum>(t, n)\<leftarrow>filter (\<lambda>(t, n). t \<in> X) ts. n) = countIf (\<lambda>sp. spTraceID sp \<in> X) normals" for X
    by (simp add: an(1) tallyOf_spec(3) countIf_def filter_map comp_def)
  have n: "n = int (length normals)" "n = (\<Sum>(t, n)\<leftarrow>ts. n)"
    using an(2) sums[of UNIV] by (simp_all add: countIf_def normals_def)
  have pl: "plan ts 0 allowed = (ids, dropped)" using assms(2) by (simp add: planTraceDrops_plan)
  note P = plan_sums[of ts 0 allowed, unfolded pl, simplified]
  have ts: "\<forall>(t, n) \<in> set ts. 0 \<le> n" "distinct (map fst ts)" using ok(1) by (auto simp: tally_ok_def)
  have ids: "set ids \<subseteq> spTraceID ` set normals" using P(1)[OF ts assms(3)] ok(2) by fastforce
  have dropped: "dropped = countIf (\<lambda>sp. spTraceID sp \<in> set ids) normals"
    using P(2)[OF ts assms(3)] sums[of "set ids"] by (simp add: case_prod_unfold)
  have kept: "countIf (\<lambda>sp. spTraceID sp \<in> - set ids) normals \<le> allowed"
    using P(3)[OF ts assms(3)] sums[of "- set ids"] by (simp add: case_prod_unfold)
  have all: "filter (\<lambda>sp. spTraceID sp \<in> set ids) normals = filter (\<lambda>sp. spTraceID sp \<in> set ids) (spansIn td idx)"
    using ids by (auto simp: normals_def intro!: filter_cong)
  have "n - dropped = countIf (\<lambda>sp. spTraceID sp \<in> - set ids) normals"
    using countIf_split[of "\<lambda>sp. spTraceID sp \<in> set ids" normals] by (simp add: n(1) dropped)
  moreover have "n \<le> allowed \<longrightarrow> ids = [] \<and> dropped = 0"
    using plan_all[OF ts(1), of 0 allowed] pl n(2) by auto
  ultimately show ?thesis using kept dropped all by (simp add: countIf_def)
qed

theorem trace_plan_within_grant_witness:
  "analyzeTracesIn exampleSplitTrace [0] True = (0, 7, [([1], 7)]) \<and> planTraceDrops [([1], 7)] 5 = ([[1]], 7)
   \<and> 7 = countIf (\<lambda>sp. spTraceID sp \<in> set [[1]]) (spansIn exampleSplitTrace [0])"
  using trace_plan_within_grant[OF exampleSplit_tallies(1,3)] exampleSplit_tallies by simp

fun throttleRun :: "gotime list \<Rightarrow> dropLogThrottle \<Rightarrow> (gotime \<times> int) list \<times> dropLogThrottle" where
  "throttleRun [] d = ([], d)"
| "throttleRun (t # ts) d =
     (let ((n, ok), d1) = dropLogNext t d; (logged, d2) = throttleRun ts d1
      in (if ok then (t, n) # logged else logged, d2))"

lemma dropLogNext_cases:
  obtains "dropLogNext t d = ((0, False), d\<lparr>dl_suppressed := dl_suppressed d + 1\<rparr>)"
  | "dropLogNext t d = ((dl_suppressed d, True), \<lparr>dl_last = Some t, dl_suppressed = 0\<rparr>)"
    "\<forall>l. dl_last d = Some l \<longrightarrow> l + dropLogInterval \<le> t"
proof (cases "dl_last d")
  case None
  then show ?thesis by (intro that(2)) (simp_all add: dropLogNext_def)
next
  case (Some l)
  show ?thesis
  proof (cases "timeSub t l < dropLogInterval")
    case True
    with Some show ?thesis by (intro that(1)) (simp add: dropLogNext_def)
  next
    case False
    then have "l + dropLogInterval \<le> t"
      by (auto simp: timeSub_def dropLogInterval_def Second_def max_def min_def split: if_splits)
    with Some False show ?thesis by (intro that(2)) (simp_all add: dropLogNext_def)
  qed
qed

lemma throttle_run:
  "sorted_wrt (\<lambda>t u. t + dropLogInterval \<le> u) (map fst (fst (throttleRun ts d)))
   \<and> (\<forall>l. dl_last d = Some l \<longrightarrow> (\<forall>t \<in> fst ` set (fst (throttleRun ts d)). l + dropLogInterval \<le> t))
   \<and> int (length (fst (throttleRun ts d))) + sum_list (map snd (fst (throttleRun ts d))) + dl_suppressed (snd (throttleRun ts d))
      = int (length ts) + dl_suppressed d"
proof (induction ts arbitrary: d)
  case (Cons t ts)
  show ?case
  proof (cases rule: dropLogNext_cases[of t d])
    case 1
    then show ?thesis using Cons[of "d\<lparr>dl_suppressed := dl_suppressed d + 1\<rparr>"] by (simp add: split_beta Let_def)
  next
    case 2
    have "0 \<le> dropLogInterval" by (simp add: dropLogInterval_def Second_def)
    then show ?thesis using 2 Cons[of "\<lparr>dl_last = Some t, dl_suppressed = 0\<rparr>"] by (auto simp: split_beta Let_def)
  qed
qed simp

text \<open>
  However often batches are cut, a warning is logged at most once in ten seconds, and every
  suppressed one is counted in the next warning: over any run of a new throttle, the warnings
  logged, the suppressed ones they report and those still pending add up to the calls.
\<close>

theorem drop_warnings_throttled:
  "sorted_wrt (\<lambda>t u. t + 10 * Second \<le> u) (map fst (fst (throttleRun ts \<lparr>dl_last = None, dl_suppressed = 0\<rparr>)))
   \<and> int (length (fst (throttleRun ts \<lparr>dl_last = None, dl_suppressed = 0\<rparr>)))
      + sum_list (map snd (fst (throttleRun ts \<lparr>dl_last = None, dl_suppressed = 0\<rparr>)))
      + dl_suppressed (snd (throttleRun ts \<lparr>dl_last = None, dl_suppressed = 0\<rparr>)) = int (length ts)"
  using throttle_run[of ts "\<lparr>dl_last = None, dl_suppressed = 0\<rparr>"] by (simp add: dropLogInterval_def)

end
