(* ===== verification/Rl_System.thy ===== *)
theory Rl_System
  imports Rl_Registry Rl_Properties
begin

text \<open>
  A whole collector with rate limiters: components that share backends, the processors of their
  pipelines, batches that pass through them, clean-up, scrapes and shutdown, in any order. The
  storage contract and the registry's invariant give the properties of every reachable state.
\<close>

section \<open>A batch keeps the storage's invariant\<close>

text \<open>What a processor keeps of its own state: its limiter, and a storage in its invariant.\<close>

definition proc_ok :: "('st \<Rightarrow> bool) \<Rightarrow> RateLimiter \<Rightarrow> 'st rateLimitProcessor \<Rightarrow> bool" where
  "proc_ok I L rp \<longleftrightarrow> rp_limiter rp = L \<and> I (rp_storage rp)"

lemma proc_ok_frame [simp]:
  "proc_ok I L (addItems c n key sig pr rp) = proc_ok I L rp" "proc_ok I L (warnDrop rp) = proc_ok I L rp"
  by (simp_all add: proc_ok_def)

lemma proc_ok_forward [simp]: "proc_ok I L (snd (forward r)) = proc_ok I L (snd r)"
  by (simp add: forward_def split: prod.split option.split)

lemma proc_ok_fold:
  "(\<And>x s. proc_ok I L (fst s) \<Longrightarrow> proc_ok I L (fst (f x s))) \<Longrightarrow> proc_ok I L (fst s) \<Longrightarrow> proc_ok I L (fst (fold f xs s))"
  by (induction xs arbitrary: s) auto

context storage
begin

lemma admit_proc_ok:
  assumes "envOps env = S" "\<And>key. budgets_ok (envCvt env) L key"
  shows "proc_ok inv L (fst s) \<Longrightarrow> proc_ok inv L (fst (admitGroup env sig g s))"
    "proc_ok inv L (fst t) \<Longrightarrow> proc_ok inv L (fst (admitTraces env td keys key t))"
    "proc_ok inv L (fst u) \<Longrightarrow> proc_ok inv L (fst (admitMetrics env counts key u))"
  using assms(1) AllowUpToNCtx_range[OF _ assms(2)] AllowNCtx_inv[OF _ assms(2)]
  by (auto simp: proc_ok_def admitGroup_def admitTraces_def admitMetrics_def split_beta Let_def)

lemma consume_proc_ok:
  assumes e: "envOps env = S" "\<And>key. budgets_ok (envCvt env) L key" and rp: "proc_ok inv L rp"
  shows "proc_ok inv L (snd (ConsumeTraces env tlib md td rp))"
    "proc_ok inv L (snd (ConsumeLogs env llib md ld rp))"
    "proc_ok inv L (snd (ConsumeMetrics env mlib md ms rp))"
proof -
  note admit = admit_proc_ok[OF e]
  have items: "proc_ok inv L (fst (fold (admitGroup env sig) gs (rp, b)))" for sig gs b
    by (rule proc_ok_fold[OF admit(1)]) (simp_all add: rp)
  have traces: "proc_ok inv L (fst (fold (admitTraces env td keys) ks (rp, b)))" for keys ks b
    by (rule proc_ok_fold[OF admit(2)]) (simp_all add: rp)
  have metrics: "proc_ok inv L (fst (fold (admitMetrics env counts) ks (rp, b)))" for counts ks b
    by (rule proc_ok_fold[OF admit(3)]) (simp_all add: rp)
  show "proc_ok inv L (snd (ConsumeTraces env tlib md td rp))"
    by (simp add: ConsumeTraces_def processTraces_def processTracesByTrace_def processItems_def items traces rp split_beta Let_def)
  show "proc_ok inv L (snd (ConsumeLogs env llib md ld rp))"
    by (simp add: ConsumeLogs_def processLogs_def processItems_def items rp split_beta Let_def)
  show "proc_ok inv L (snd (ConsumeMetrics env mlib md ms rp))"
    by (simp add: ConsumeMetrics_def processMetrics_def metrics rp split_beta Let_def)
qed

lemma gauges_proc_ok: "envOps env = S \<Longrightarrow> proc_ok inv L rp \<Longrightarrow> proc_ok inv L (snd (observeGauges env keys rp))"
  by (induction keys arbitrary: rp) (simp_all add: proc_ok_def available_inv split_beta Let_def)

lemma wire_inv: "inv st \<Longrightarrow> inv (wireCounters S st)"
  by (simp add: wireCounters_def counter_inv)

end

section \<open>Collectors\<close>

text \<open>A pipeline is a processor with its handle; \<open>p_live\<close> says that it has not been shut down.\<close>

record pipeline =
  p_proc :: "anyStorage rateLimitProcessor"
  p_handle :: nat
  p_live :: bool

record collector =
  c_registry :: storageRegistry
  c_pipes :: "pipeline list"

text \<open>
  What is relied on: the clocks of a process do not go back, a map's iteration visits every entry
  once, other writers keep the Redis buckets well formed; limits fit 53 bits, and no negative
  cache has a negative lifetime.
\<close>

definition world_ok :: "('e, 'tls) storageWorld \<Rightarrow> bool" where
  "world_ok w \<longleftrightarrow> mono_clock (wClock w) \<and> fair_orders (wOrders w) \<and> db_ok (wDb w) \<and> env_ok (wNet w)"

definition config_fits :: "(f64 \<Rightarrow> int) \<Rightarrow> Config \<Rightarrow> bool" where
  "config_fits cvt cfg \<longleftrightarrow> (\<forall>key. budgets_ok cvt (newRateLimiterWithStorage (applyStorageDefaults cfg)) key)
     \<and> (\<forall>s r. Storage (applyStorageDefaults cfg) = Some s \<longrightarrow> Redis s = Some r \<longrightarrow> 0 \<le> NegativeCacheTTL r)"

definition newPipes :: "'err + anyStorage rateLimitProcessor \<times> nat \<Rightarrow> pipeline list" where
  "newPipes res = (case res of Inl _ \<Rightarrow> [] | Inr (rp, k) \<Rightarrow> [\<lparr>p_proc = rp, p_handle = k, p_live = True\<rparr>])"

definition runPipe ::
  "nat \<Rightarrow> (anyStorage rateLimitProcessor \<Rightarrow> 'res \<times> anyStorage rateLimitProcessor) \<Rightarrow> collector \<Rightarrow> collector" where
  "runPipe p run c =
     (let q = c_pipes c ! p; (res, rp, r) = consumeShared (p_handle q) run (p_proc q) (c_registry c)
      in \<lparr>c_registry = r, c_pipes = (c_pipes c)[p := q\<lparr>p_proc := rp\<rparr>]\<rparr>)"

definition stopPipe :: "nat \<Rightarrow> collector \<Rightarrow> collector" where
  "stopPipe p c =
     (let q = c_pipes c ! p; (rp, r) = shutdownShared (p_handle q) (p_proc q) (c_registry c)
      in \<lparr>c_registry = r, c_pipes = (c_pipes c)[p := q\<lparr>p_proc := rp, p_live := False\<rparr>]\<rparr>)"

inductive collector_run :: "anyStorage rlEnv \<Rightarrow> collector \<Rightarrow> bool" for env where
  col_new: "collector_run env \<lparr>c_registry = newRegistry, c_pipes = []\<rparr>"
| col_create: "collector_run env c \<Longrightarrow> f \<in> {createTracesProcessor, createMetricsProcessor, createLogsProcessor}
    \<Longrightarrow> world_ok (w :: (string, unit) storageWorld) \<Longrightarrow> config_fits (envCvt env) cfg
    \<Longrightarrow> f w env tel reg clk i cfg (c_registry c) = (res, r)
    \<Longrightarrow> collector_run env \<lparr>c_registry = r, c_pipes = c_pipes c @ newPipes res\<rparr>"
| col_traces: "collector_run env c \<Longrightarrow> p < length (c_pipes c) \<Longrightarrow> p_live (c_pipes c ! p)
    \<Longrightarrow> collector_run env (runPipe p (ConsumeTraces env tlib md td) c)"
| col_logs: "collector_run env c \<Longrightarrow> p < length (c_pipes c) \<Longrightarrow> p_live (c_pipes c ! p)
    \<Longrightarrow> collector_run env (runPipe p (ConsumeLogs env llib md ld) c)"
| col_metrics: "collector_run env c \<Longrightarrow> p < length (c_pipes c) \<Longrightarrow> p_live (c_pipes c ! p)
    \<Longrightarrow> collector_run env (runPipe p (ConsumeMetrics env mlib md ms) c)"
| col_scrape: "collector_run env c \<Longrightarrow> p < length (c_pipes c) \<Longrightarrow> p_live (c_pipes c ! p)
    \<Longrightarrow> collector_run env (runPipe p (observeGauges env keys) c)"
| col_cleanup: "collector_run env c \<Longrightarrow> b < length (backends (c_registry c)) \<Longrightarrow> backends (c_registry c) ! b = MemoryBackend s
    \<Longrightarrow> collector_run env (c\<lparr>c_registry := (c_registry c)\<lparr>backends := (backends (c_registry c))[b := MemoryBackend (cleanup maxAge s)]\<rparr>\<rparr>)"
| col_shutdown: "collector_run env c \<Longrightarrow> p < length (c_pipes c) \<Longrightarrow> p_live (c_pipes c ! p) \<Longrightarrow> collector_run env (stopPipe p c)"

section \<open>The invariant of a collector\<close>

definition pipe_ok :: "(f64 \<Rightarrow> int) \<Rightarrow> sharedHandle list \<Rightarrow> pipeline \<Rightarrow> bool" where
  "pipe_ok cvt hs q \<longleftrightarrow> (\<forall>key. budgets_ok cvt (rp_limiter (p_proc q)) key)
     \<and> p_handle q < length hs \<and> (p_live q \<longrightarrow> \<not> h_once (hs ! p_handle q))"

definition collector_ok :: "(f64 \<Rightarrow> int) \<Rightarrow> collector \<Rightarrow> bool" where
  "collector_ok cvt c \<longleftrightarrow> shared_run newStorageEntry (opClose anyOps) (c_registry c)
     \<and> (\<forall>st \<in> set (backends (c_registry c)). any_inv st)
     \<and> (\<forall>q \<in> set (c_pipes c). pipe_ok cvt (handles (c_registry c)) q) \<and> distinct (map p_handle (c_pipes c))"

lemma newStorage_inv: "newStorage w cfg = Inr st \<Longrightarrow> world_ok w \<Longrightarrow>
  (\<forall>s r. Storage cfg = Some s \<longrightarrow> Redis s = Some r \<longrightarrow> 0 \<le> NegativeCacheTTL r) \<Longrightarrow> any_inv st"
  by (auto simp: newStorage_def any_inv_def world_ok_def Let_def newMemoryStorage_inv
      intro: newRedisStorage_inv split: if_splits option.splits sum.splits)

lemma acquire_handles:
  "acquire mk i build r = (res, r1) \<Longrightarrow>
   (case res of Inl err \<Rightarrow> r1 = r
    | Inr k \<Rightarrow> k = length (handles r) \<and> (\<exists>b. handles r1 = handles r @ [\<lparr>h_backend = b, h_id = i, h_once = False\<rparr>])
       \<and> (backends r1 = backends r \<or> (\<exists>st. build = Inr st \<and> backends r1 = backends r @ [st])))"
  by (auto simp: acquire_def addHandle_def Let_def split: option.splits sum.splits)

lemma registerGauges_frame [simp]:
  "handles (snd (registerGauges i reg r)) = handles r" "backends (snd (registerGauges i reg r)) = backends r"
  by (simp_all add: registerGauges_def split: option.split)

lemma newProcessor_limiter:
  "newRateLimitProcessor env tel reg shared clk cfg st = Inr rp \<Longrightarrow> rp_limiter rp = newRateLimiterWithStorage cfg"
  by (auto simp: newRateLimitProcessor_def Let_def split: option.splits if_splits)

lemma set_list_update: "\<forall>x \<in> set xs. P x \<Longrightarrow> P y \<Longrightarrow> \<forall>x \<in> set (xs[i := y]). P x"
  by (auto dest: set_update_subset_insert[THEN subsetD])

lemma createProcessor_ok:
  assumes r: "createProcessor w env tel reg clk i cfg r0 = (res, r)" and w: "world_ok w" and cfg: "config_fits (envCvt env) cfg"
    and ops: "envOps env = anyOps" and inv: "\<forall>st \<in> set (backends r0). any_inv st"
    and reg: "reg_inv r0"
  shows "\<forall>st \<in> set (backends r). any_inv st"
    and "\<exists>hs. handles r = handles r0 @ hs
      \<and> (\<forall>rp k. res = Inr (rp, k) \<longrightarrow> k = length (handles r0) \<and> length hs = 1 \<and> \<not> h_once (hd hs)
            \<and> rp_limiter rp = newRateLimiterWithStorage (applyStorageDefaults cfg))"
proof -
  let ?o = "applyStorageDefaults cfg"
  obtain a r1 where a: "acquireStorage w i cfg r0 = (a, r1)" by force
  have "(\<forall>st \<in> set (backends r). any_inv st) \<and> (\<exists>hs. handles r = handles r0 @ hs
      \<and> (\<forall>rp k. res = Inr (rp, k) \<longrightarrow> k = length (handles r0) \<and> length hs = 1 \<and> \<not> h_once (hd hs)
            \<and> rp_limiter rp = newRateLimiterWithStorage ?o))"
  proof (cases a)
    case (Inl err)
    have "r1 = r0"
      using a Inl acquire_handles[of newStorageEntry i "newStorage w ?o" r0]
      by (auto simp: acquireStorage_def storageAcquire_def Let_def split: option.splits prod.splits sum.splits)
    then show ?thesis using r inv by (auto simp: createProcessor_def a Inl)
  next
    case (Inr x)
    obtain k where x: "x = (?o, k)" "acquire newStorageEntry i (newStorage w ?o) r0 = (Inr k, r1)"
      using a Inr by (auto simp: acquireStorage_def storageAcquire_def Let_def split: option.splits prod.splits sum.splits)
    obtain b where k: "k = length (handles r0)" "handles r1 = handles r0 @ [\<lparr>h_backend = b, h_id = i, h_once = False\<rparr>]"
      and bs: "backends r1 = backends r0 \<or> (\<exists>st. newStorage w ?o = Inr st \<and> backends r1 = backends r0 @ [st])"
      using acquire_handles[OF x(2)] by auto
    have inv1: "\<forall>st \<in> set (backends r1). any_inv st"
      using bs inv newStorage_inv[OF _ w] cfg by (auto simp: config_fits_def)
    have b: "b < length (backends r1)"
    proof -
      have "reg_inv r1" using acquire_inv[OF reg, of newStorageEntry i "newStorage w ?o"] x(2) by (simp add: newStorageEntry_def)
      then show ?thesis by (rule reg_inv_handles[of _ "\<lparr>h_backend = b, h_id = i, h_once = False\<rparr>"]) (simp_all add: k)
    qed
    then have "any_inv (wireCounters anyOps (backends r1 ! b))" using inv1 by (intro any.wire_inv) simp
    then have "\<forall>st \<in> set ((backends r1)[b := if tel = None then wireCounters anyOps (backends r1 ! b) else backends r1 ! b]). any_inv st"
      using inv1 b by (intro set_list_update) auto
    then show ?thesis
      using r k ops by (auto simp: createProcessor_def a Inr x(1) handleBackend_def split_beta Let_def
          dest: newProcessor_limiter split: sum.splits if_splits)
  qed
  then show "\<forall>st \<in> set (backends r). any_inv st"
    "\<exists>hs. handles r = handles r0 @ hs
      \<and> (\<forall>rp k. res = Inr (rp, k) \<longrightarrow> k = length (handles r0) \<and> length hs = 1 \<and> \<not> h_once (hd hs)
            \<and> rp_limiter rp = newRateLimiterWithStorage ?o)" by blast+
qed

lemma collector_okI:
  assumes "shared_run newStorageEntry (opClose anyOps) r" "backends r = bs" "handles r = hs" "map p_handle ps = ks"
    and "\<forall>st \<in> set bs. any_inv st" "\<forall>q \<in> set ps. pipe_ok cvt hs q" "distinct ks"
  shows "collector_ok cvt \<lparr>c_registry = r, c_pipes = ps\<rparr>"
  using assms by (simp add: collector_ok_def)

lemma collector_reg: "collector_ok cvt c \<Longrightarrow> reg_inv (c_registry c)"
  unfolding collector_ok_def by (elim conjE, rule shared_run_inv) (auto simp: newStorageEntry_def)

lemma live_backend:
  assumes ok: "collector_ok cvt c" and q: "q \<in> set (c_pipes c)" "p_live q"
  defines "h \<equiv> handles (c_registry c) ! p_handle q"
  shows "h \<in> set (handles (c_registry c)) \<and> \<not> h_once h \<and> h_backend h < length (backends (c_registry c))
    \<and> h_backend h \<notin> set (closedBackends (c_registry c))"
proof -
  have h: "h \<in> set (handles (c_registry c))" "\<not> h_once h"
    using ok q by (auto simp: collector_ok_def pipe_ok_def h_def)
  show ?thesis by (rule reg_inv_handles[OF collector_reg[OF ok] h]) (use h in blast)
qed

text \<open>A use of a backend by a pipeline, for whatever keeps the limiter and the storage's invariant.\<close>

lemma runPipe_ok:
  assumes ok: "collector_ok cvt c" and p: "p < length (c_pipes c)" "p_live (c_pipes c ! p)"
    and run: "\<And>L rp. (\<And>key. budgets_ok cvt L key) \<Longrightarrow> proc_ok any_inv L rp \<Longrightarrow> proc_ok any_inv L (snd (run rp))"
  shows "collector_ok cvt (runPipe p run c)"
proof -
  let ?q = "c_pipes c ! p" and ?r = "c_registry c"
  let ?b = "handleBackend ?r (p_handle ?q)"
  let ?rp = "(p_proc ?q)\<lparr>rp_storage := backends ?r ! ?b\<rparr>"
  have q: "pipe_ok cvt (handles ?r) ?q" using ok p by (simp add: collector_ok_def)
  have "?b < length (backends ?r)" using live_backend[OF ok _ p(2)] p(1) by (simp add: handleBackend_def)
  then have "proc_ok any_inv (rp_limiter (p_proc ?q)) ?rp" using ok by (simp add: collector_ok_def proc_ok_def)
  then have ok': "proc_ok any_inv (rp_limiter (p_proc ?q)) (snd (run ?rp))"
    using q by (intro run) (simp_all add: pipe_ok_def)
  have eq: "runPipe p run c = \<lparr>c_registry = ?r\<lparr>backends := (backends ?r)[?b := rp_storage (snd (run ?rp))]\<rparr>,
      c_pipes = (c_pipes c)[p := ?q\<lparr>p_proc := snd (run ?rp)\<rparr>]\<rparr>"
    by (simp add: runPipe_def consumeShared_def split_beta Let_def)
  show ?thesis
    unfolding eq
  proof (rule collector_okI[OF _ _ _ _ set_list_update set_list_update])
    show "map p_handle ((c_pipes c)[p := ?q\<lparr>p_proc := snd (run ?rp)\<rparr>]) = map p_handle (c_pipes c)"
      using p(1) by (simp add: map_update list_update_same_conv)
    show "pipe_ok cvt (handles ?r) (?q\<lparr>p_proc := snd (run ?rp)\<rparr>)" using q ok' by (simp add: pipe_ok_def proc_ok_def)
    show "any_inv (rp_storage (snd (run ?rp)))" using ok' by (simp add: proc_ok_def)
  qed (use ok in \<open>auto simp: collector_ok_def run_use\<close>)
qed

lemma closeHandle_handles:
  "\<not> h_once (handles r ! k) \<Longrightarrow> handles (closeHandle close k r) = (handles r)[k := (handles r ! k)\<lparr>h_once := True\<rparr>]"
  by (simp add: closeHandle_def release_def closeBackend_def Let_def split: option.split)

lemma any_close: "\<forall>st \<in> set (backends r). any_inv st \<Longrightarrow> \<forall>st \<in> set (backends (closeHandle (opClose anyOps) k r)). any_inv st"
proof -
  assume inv: "\<forall>st \<in> set (backends r). any_inv st"
  have "\<forall>st \<in> set ((backends r)[b := opClose anyOps (backends r ! b)]). any_inv st" for b
  proof (cases "b < length (backends r)")
    case True
    then show ?thesis using inv by (intro set_list_update[OF inv] any.close_inv) simp
  qed (use inv in \<open>simp add: list_update_beyond\<close>)
  then show ?thesis using inv by (simp add: closeHandle_def release_def closeBackend_def Let_def split: option.split)
qed

lemma stopPipe_ok:
  assumes ok: "collector_ok cvt c" and p: "p < length (c_pipes c)" "p_live (c_pipes c ! p)"
  shows "collector_ok cvt (stopPipe p c)"
proof -
  let ?q = "c_pipes c ! p" and ?r = "c_registry c"
  let ?r' = "closeHandle (opClose anyOps) (p_handle ?q) ?r" and ?q' = "?q\<lparr>p_proc := (p_proc ?q)\<lparr>rp_gaugeReg := False\<rparr>, p_live := False\<rparr>"
  have q: "pipe_ok cvt (handles ?r) ?q" using ok p by (simp add: collector_ok_def)
  have eq: "stopPipe p c = \<lparr>c_registry = ?r', c_pipes = (c_pipes c)[p := ?q']\<rparr>"
    by (simp add: stopPipe_def shutdownShared_def sharedStorageClose_def Let_def)
  have hs: "handles ?r' = (handles ?r)[p_handle ?q := (handles ?r ! p_handle ?q)\<lparr>h_once := True\<rparr>]"
    using q p by (intro closeHandle_handles) (simp add: pipe_ok_def)
  have dis: "distinct (map p_handle (c_pipes c))" using ok by (simp add: collector_ok_def)
  have "pipe_ok cvt (handles ?r') ((c_pipes c)[p := ?q'] ! j)" if j: "j < length (c_pipes c)" for j
  proof (cases "j = p")
    case False
    then have "p_handle (c_pipes c ! j) \<noteq> p_handle ?q" using dis j p(1) by (auto simp: distinct_conv_nth)
    moreover have "pipe_ok cvt (handles ?r) (c_pipes c ! j)" using ok j by (simp add: collector_ok_def)
    ultimately show ?thesis using False by (simp add: pipe_ok_def hs)
  qed (use q p in \<open>simp add: pipe_ok_def hs\<close>)
  then have pipes: "\<forall>x \<in> set ((c_pipes c)[p := ?q']). pipe_ok cvt (handles ?r') x" by (auto simp: in_set_conv_nth)
  have "p_handle ?q < length (handles ?r)" using q by (simp add: pipe_ok_def)
  then have run: "shared_run newStorageEntry (opClose anyOps) ?r'" using ok by (simp add: collector_ok_def run_close)
  have inv: "\<forall>st \<in> set (backends ?r'). any_inv st" by (rule any_close) (use ok in \<open>auto simp: collector_ok_def\<close>)
  show ?thesis
    unfolding eq
  proof (rule collector_okI[OF run refl refl _ inv pipes dis])
    show "map p_handle ((c_pipes c)[p := ?q']) = map p_handle (c_pipes c)"
      using p(1) by (simp add: map_update list_update_same_conv)
  qed
qed

lemma create_ok:
  assumes ok: "collector_ok (envCvt env) c" and r: "createProcessor w env tel reg clk i cfg (c_registry c) = (res, r)"
    and w: "world_ok w" "config_fits (envCvt env) cfg" "envOps env = anyOps"
  shows "collector_ok (envCvt env) \<lparr>c_registry = r, c_pipes = c_pipes c @ newPipes res\<rparr>"
proof -
  let ?r = "c_registry c"
  have inv: "\<forall>st \<in> set (backends ?r). any_inv st" using ok by (auto simp: collector_ok_def)
  note C = createProcessor_ok[OF r w inv collector_reg[OF ok]]
  obtain hs where hs: "handles r = handles ?r @ hs" "\<And>rp k. res = Inr (rp, k) \<Longrightarrow> k = length (handles ?r) \<and> length hs = 1 \<and> \<not> h_once (hd hs)
      \<and> rp_limiter rp = newRateLimiterWithStorage (applyStorageDefaults cfg)"
    using C(2) by blast
  have run: "shared_run newStorageEntry (opClose anyOps) r"
    using createProcessor_run[of ?r w env tel reg clk i cfg] ok r by (simp add: collector_ok_def)
  have old: "\<forall>q \<in> set (c_pipes c). pipe_ok (envCvt env) (handles r) q \<and> p_handle q < length (handles ?r)"
    using ok by (auto simp: collector_ok_def pipe_ok_def hs(1) nth_append)
  have new: "\<forall>q \<in> set (newPipes res). pipe_ok (envCvt env) (handles r) q \<and> p_handle q = length (handles ?r)"
    using hs(2) w(2) by (auto simp: newPipes_def pipe_ok_def hs(1) config_fits_def nth_append length_Suc_conv hd_conv_nth
        split: sum.splits)
  have dis: "distinct (map p_handle (c_pipes c @ newPipes res))"
  proof -
    have "distinct (map p_handle (newPipes res))" by (simp add: newPipes_def split: sum.split prod.split)
    moreover have "distinct (map p_handle (c_pipes c))" using ok by (simp add: collector_ok_def)
    ultimately show ?thesis using old new by fastforce
  qed
  show ?thesis by (rule collector_okI[OF run refl refl refl C(1) _ dis]) (use old new in auto)
qed

lemma collector_run_ok: "collector_run env c \<Longrightarrow> envOps env = anyOps \<Longrightarrow> collector_ok (envCvt env) c"
proof (induction rule: collector_run.induct)
  case col_new
  show ?case by (simp add: collector_ok_def run_new) (simp add: newRegistry_def)
next
  case (col_create c f w cfg tel reg clk i res r)
  then have "createProcessor w env tel reg clk i cfg (c_registry c) = (res, r)"
    by (auto simp: createTracesProcessor_def createMetricsProcessor_def createLogsProcessor_def)
  then show ?case using col_create by (intro create_ok) auto
next
  case (col_traces c p tlib md td)
  then show ?case by (intro runPipe_ok any.consume_proc_ok) auto
next
  case (col_logs c p llib md ld)
  then show ?case by (intro runPipe_ok any.consume_proc_ok) auto
next
  case (col_metrics c p mlib md ms)
  then show ?case by (intro runPipe_ok any.consume_proc_ok) auto
next
  case (col_scrape c p keys)
  then show ?case by (intro runPipe_ok any.gauges_proc_ok) auto
next
  case (col_cleanup c b s maxAge)
  let ?r = "c_registry c"
  have ok: "collector_ok (envCvt env) c" using col_cleanup by simp
  have inv: "\<forall>st \<in> set (backends ?r). any_inv st" using ok by (auto simp: collector_ok_def)
  have "any_inv (backends ?r ! b)" using inv col_cleanup(2) by (metis nth_mem)
  then have "any_inv (MemoryBackend (cleanup maxAge s))" using col_cleanup by (simp add: any_inv_def cleanup_inv)
  then have "\<forall>st \<in> set ((backends ?r)[b := MemoryBackend (cleanup maxAge s)]). any_inv st" by (rule set_list_update[OF inv])
  then show ?case using ok by (auto simp: collector_ok_def run_use)
next
  case (col_shutdown c p)
  then show ?case by (intro stopPipe_ok) auto
qed

text \<open>What an operator can rely on of a backend: in range and in bounds, and no panic.\<close>

definition backend_safe :: "anyStorage \<Rightarrow> bool" where
  "backend_safe st \<longleftrightarrow> (case st of
       MemoryBackend s \<Rightarrow> bucketCount s \<le> maxBuckets s \<and> distinct (map fst (buckets s))
         \<and> (\<forall>(key, b) \<in> set (buckets s). 0 \<le> tokens b \<and> tokens b \<le> maxTokens b)
     | RedisBackend s \<Rightarrow> \<not> rs_panicked s \<and> (\<forall>m. negCache s = Some m \<longrightarrow> length m \<le> 10000) \<and> db_ok (rs_db s))"

lemma any_inv_safe: "any_inv st \<Longrightarrow> backend_safe st"
  by (cases st) (auto simp: any_inv_def backend_safe_def ms_inv_def bucket_ok_def tb_inv_def rs_inv_def negCacheSize_def maxNegCacheEntries_def)


definition firstPipe :: collector where
  "firstPipe = (let (res, r) = createTracesProcessor exampleWorld anyEnv None None (sconst 0) ''ratelimit'' createDefaultConfig newRegistry
     in \<lparr>c_registry = r, c_pipes = newPipes res\<rparr>)"

definition secondPipe :: collector where
  "secondPipe = (let (res, r) = createLogsProcessor exampleWorld anyEnv None None (sconst 0) ''ratelimit'' createDefaultConfig (c_registry firstPipe)
     in \<lparr>c_registry = r, c_pipes = c_pipes firstPipe @ newPipes res\<rparr>)"

lemma example_fits: "config_fits (envCvt anyEnv) createDefaultConfig"
proof -
  have "budgets_ok (envCvt anyEnv) (newRateLimiterWithStorage createDefaultConfig) key" for key
    by (simp add: budgets_ok_def newRateLimiterWithStorage_def configHasGlobal_def createDefaultConfig_def budget_ok_def limit_ok_def
        GetLimit_def GlobalLimit_def specificLimit_def shareLimit_def perKeyLimit_def capToShare_def Let_def)
  then show ?thesis by (simp add: config_fits_def default_config) (simp add: createDefaultConfig_def)
qed

lemma example_world: "world_ok exampleWorld"
  by (simp add: world_ok_def exampleWorld_def mono_clock_def fair_orders_def db_ok_def env_ok_def data_ok_def)

lemma secondPipe_pipes:
  "map p_handle (c_pipes secondPipe) = [0, 1]" "map p_live (c_pipes secondPipe) = [True, True]" "collector_run anyEnv secondPipe"
proof -
  have m: "MetricsKeyAllowlist createDefaultConfig = []" by (simp add: createDefaultConfig_def)
  note ev = createLogsProcessor_def createTracesProcessor_def createProcessor_def acquireStorage_def
        default_config storageAcquire_def example_newStorage acquire_def newRegistry_def addHandle_def newStorageEntry_def
        newRateLimitProcessor_def m Let_def handleBackend_def newPipes_def
  show "map p_handle (c_pipes secondPipe) = [0, 1]" "map p_live (c_pipes secondPipe) = [True, True]"
    by (simp_all add: secondPipe_def firstPipe_def ev)
  have "collector_run anyEnv firstPipe"
    using col_create[OF col_new, of createTracesProcessor exampleWorld anyEnv createDefaultConfig None None "sconst 0" "''ratelimit''"]
    by (simp add: firstPipe_def example_world example_fits split_beta)
  then show "collector_run anyEnv secondPipe"
    using col_create[of anyEnv firstPipe createLogsProcessor exampleWorld createDefaultConfig None None "sconst 0" "''ratelimit''"]
    by (simp add: secondPipe_def example_world example_fits split_beta)
qed


end
