(* ===== verification/Sf_Rules.thy ===== *)
theory Sf_Rules
  imports Pdata "HOL-Library.Char_ord" "HOL-Library.List_Lexorder" "HOL-Library.Sublist"
begin

text \<open>
  Filter rules (\<^verbatim>\<open>rules.go\<close>): the rule document, its compilation, the evaluation of a condition, a
  rule and a rule set on one telemetry item, and the building of a rule set from the Redis hash.
  \<open>ruleLib\<close> gathers the library calls: \<^verbatim>\<open>json.Unmarshal\<close>, \<^verbatim>\<open>regexp.Compile\<close> and \<^verbatim>\<open>MatchString\<close> (on a
  pointer that may be nil), \<^verbatim>\<open>time.Parse\<close>, \<^verbatim>\<open>Value.AsString\<close> and the Unicode tables. Nothing is
  assumed of them. Strings are byte sequences ordered byte by byte, as \<^verbatim>\<open>sort.Strings\<close> has it.
\<close>

section \<open>Rule documents\<close>

definition signalTraces :: string where "signalTraces = ''traces''"
definition signalMetrics :: string where "signalMetrics = ''metrics''"
definition signalLogs :: string where "signalLogs = ''logs''"

definition actionDrop :: string where "actionDrop = ''drop''"
definition actionKeep :: string where "actionKeep = ''keep''"

definition sourceResource :: string where "sourceResource = ''resource''"
definition sourceAttribute :: string where "sourceAttribute = ''attribute''"
definition sourceName :: string where "sourceName = ''name''"
definition sourceBody :: string where "sourceBody = ''body''"
definition sourceSeverity :: string where "sourceSeverity = ''severity''"
definition sourceScope :: string where "sourceScope = ''scope''"

definition opEquals :: string where "opEquals = ''equals''"
definition opNotEquals :: string where "opNotEquals = ''not_equals''"
definition opContains :: string where "opContains = ''contains''"
definition opPrefix :: string where "opPrefix = ''prefix''"
definition opSuffix :: string where "opSuffix = ''suffix''"
definition opRegex :: string where "opRegex = ''regex''"
definition opExists :: string where "opExists = ''exists''"
definition opNotExists :: string where "opNotExists = ''not_exists''"

lemmas rule_consts = signalTraces_def signalMetrics_def signalLogs_def actionDrop_def actionKeep_def
  sourceResource_def sourceAttribute_def sourceName_def sourceBody_def sourceSeverity_def sourceScope_def
  opEquals_def opNotEquals_def opContains_def opPrefix_def opSuffix_def opRegex_def opExists_def opNotExists_def

record Condition =
  Source :: string
  Key :: string
  Op :: string
  Value :: string
  Values :: "string list"
  IgnoreCase :: bool

record Rule =
  ID :: string
  Description :: string
  Enabled :: "bool option"
  Action :: string
  Signals :: "string list"
  Conditions :: "Condition list"
  ExpiresAt :: string

record 're ruleLib =
  jsonUnmarshal :: "string \<Rightarrow> string + Rule"
  regexpCompile :: "string \<Rightarrow> string + 're"
  regexpMatch :: "'re option \<Rightarrow> string \<Rightarrow> bool"
  parseRFC3339 :: "string \<Rightarrow> string + gotime option"
  libAsString :: "attr_value \<Rightarrow> string"
  libUni :: "string \<Rightarrow> string"

section \<open>Compiled rules\<close>

record 're compiledCond =
  ccSource :: string
  ccKey :: string
  ccOp :: string
  ccValue :: string
  ccValues :: "string list"
  ccRe :: "'re option"
  ccIgnoreCase :: bool

record 're compiledRule =
  crId :: string
  crAction :: string
  crConds :: "'re compiledCond list"
  crExpiresAt :: "gotime option"

record 're ruleSet =
  rsVersion :: int
  rsLoadedA :: "gotime option"
  rsTraces :: "'re compiledRule list"
  rsMetrics :: "'re compiledRule list"
  rsLogs :: "'re compiledRule list"
  rsTotal :: int
  rsInvalid :: int
  rsNeedsBody :: bool

definition emptyRuleSet :: "'re ruleSet" where
  "emptyRuleSet = \<lparr>rsVersion = 0, rsLoadedA = None, rsTraces = [], rsMetrics = [], rsLogs = [],
     rsTotal = 0, rsInvalid = 0, rsNeedsBody = False\<rparr>"

definition rulesFor :: "'re ruleSet \<Rightarrow> string \<Rightarrow> 're compiledRule list" where
  "rulesFor rs signal =
     (if signal = signalTraces then rsTraces rs
      else if signal = signalMetrics then rsMetrics rs
      else if signal = signalLogs then rsLogs rs
      else [])"

section \<open>Evaluation\<close>

record evalCtx =
  ecResource :: attrs
  ecAttrs :: attrs
  ecScope :: string
  ecName :: string
  ecBody :: string
  ecSeverity :: string

definition lookup :: "'re ruleLib \<Rightarrow> evalCtx \<Rightarrow> 're compiledCond \<Rightarrow> string \<times> bool" where
  "lookup lib e c =
     (if ccSource c = sourceResource then
        (case map_of (ecResource e) (ccKey c) of Some v \<Rightarrow> (libAsString lib v, True) | None \<Rightarrow> ('''', False))
      else if ccSource c = sourceAttribute then
        (case map_of (ecAttrs e) (ccKey c) of Some v \<Rightarrow> (libAsString lib v, True) | None \<Rightarrow> ('''', False))
      else if ccSource c = sourceName then (ecName e, ecName e \<noteq> '''')
      else if ccSource c = sourceBody then (ecBody e, ecBody e \<noteq> '''')
      else if ccSource c = sourceSeverity then (ecSeverity e, ecSeverity e \<noteq> '''')
      else if ccSource c = sourceScope then (ecScope e, ecScope e \<noteq> '''')
      else ('''', False))"

definition anyOf :: "'re compiledCond \<Rightarrow> string \<Rightarrow> bool" where
  "anyOf c got = (if 0 < length (ccValues c) then list_ex (\<lambda>v. got = v) (ccValues c) else got = ccValue c)"

definition eval_cond :: "'re ruleLib \<Rightarrow> 're compiledCond \<Rightarrow> evalCtx \<Rightarrow> bool" where
  "eval_cond lib c e =
     (let (got0, present) = lookup lib e c
      in if ccOp c = opExists then present
         else if ccOp c = opNotExists then \<not> present
         else if \<not> present then False
         else let got = (if ccIgnoreCase c then ToLower (libUni lib) got0 else got0)
              in if ccOp c = opEquals then anyOf c got
                 else if ccOp c = opNotEquals then \<not> anyOf c got
                 else if ccOp c = opContains then sublist (ccValue c) got
                 else if ccOp c = opPrefix then prefix (ccValue c) got
                 else if ccOp c = opSuffix then suffix (ccValue c) got
                 else if ccOp c = opRegex then regexpMatch lib (ccRe c) got
                 else False)"

definition matches :: "'re ruleLib \<Rightarrow> 're compiledRule \<Rightarrow> evalCtx \<Rightarrow> gotime \<Rightarrow> bool" where
  "matches lib r e now =
     (if (case crExpiresAt r of None \<Rightarrow> False | Some t \<Rightarrow> t < now) then False
      else list_all (\<lambda>c. eval_cond lib c e) (crConds r))"

fun firstMatch :: "'re ruleLib \<Rightarrow> evalCtx \<Rightarrow> gotime \<Rightarrow> 're compiledRule list \<Rightarrow> 're compiledRule option" where
  "firstMatch lib e now [] = None"
| "firstMatch lib e now (r # rs) = (if matches lib r e now then Some r else firstMatch lib e now rs)"

definition match_rule :: "'re ruleLib \<Rightarrow> 're ruleSet \<Rightarrow> string \<Rightarrow> evalCtx \<Rightarrow> gotime \<Rightarrow> 're compiledRule option" where
  "match_rule lib rs signal e now = firstMatch lib e now (rulesFor rs signal)"

definition shouldDrop :: "'re ruleLib \<Rightarrow> 're ruleSet \<Rightarrow> string \<Rightarrow> evalCtx \<Rightarrow> gotime \<Rightarrow> string \<times> bool" where
  "shouldDrop lib rs signal e now =
     (case match_rule lib rs signal e now of
        None \<Rightarrow> ('''', False)
      | Some r \<Rightarrow> if crAction r \<noteq> actionDrop then ('''', False) else (crId r, True))"

section \<open>Compilation\<close>

datatype cond_error =
    KeyRequired string | SourceRequired | UnknownSource string | ValueOrValuesRequired string
  | ValueRequired string | InvalidRegex string string | UnknownOp string

datatype rule_error =
    InvalidJSON string | BadAction string | UnknownSignal string | NoConditions | BadExpiry string
  | BadCondition nat cond_error | MaxRulesReached int

definition foldCase :: "'re ruleLib \<Rightarrow> 're compiledCond \<Rightarrow> 're compiledCond" where
  "foldCase lib cc =
     (if ccIgnoreCase cc
      then cc\<lparr>ccValue := ToLower (libUni lib) (ccValue cc), ccValues := map (ToLower (libUni lib)) (ccValues cc)\<rparr>
      else cc)"

definition checkSource :: "'re compiledCond \<Rightarrow> cond_error option" where
  "checkSource cc =
     (if ccSource cc = sourceResource \<or> ccSource cc = sourceAttribute
      then (if ccKey cc = '''' then Some (KeyRequired (ccSource cc)) else None)
      else if ccSource cc \<in> {sourceName, sourceBody, sourceSeverity, sourceScope} then None
      else if ccSource cc = '''' then Some SourceRequired
      else Some (UnknownSource (ccSource cc)))"

definition compileCondition :: "'re ruleLib \<Rightarrow> Condition \<Rightarrow> cond_error + 're compiledCond" where
  "compileCondition lib c =
     (let cc = \<lparr>ccSource = Source c, ccKey = Key c, ccOp = (if Op c = '''' then opEquals else Op c),
                ccValue = Value c, ccValues = Values c, ccRe = None, ccIgnoreCase = IgnoreCase c\<rparr>
      in case checkSource cc of
           Some err \<Rightarrow> Inl err
         | None \<Rightarrow>
             if ccOp cc = opExists \<or> ccOp cc = opNotExists then Inr cc
             else if ccOp cc = opEquals \<or> ccOp cc = opNotEquals then
               (if ccValue cc = '''' \<and> length (ccValues cc) = 0 then Inl (ValueOrValuesRequired (ccOp cc))
                else Inr (foldCase lib cc))
             else if ccOp cc \<in> {opContains, opPrefix, opSuffix} then
               (if ccValue cc = '''' then Inl (ValueRequired (ccOp cc)) else Inr (foldCase lib cc))
             else if ccOp cc = opRegex then
               (if ccValue cc = '''' then Inl (ValueRequired (ccOp cc))
                else case regexpCompile lib (ccValue cc) of
                  Inl err \<Rightarrow> Inl (InvalidRegex (ccValue cc) err)
                | Inr r \<Rightarrow> Inr (cc\<lparr>ccRe := Some r\<rparr>))
             else Inl (UnknownOp (ccOp cc)))"

fun compileConditions :: "'re ruleLib \<Rightarrow> nat \<Rightarrow> Condition list \<Rightarrow> rule_error + 're compiledCond list" where
  "compileConditions lib i [] = Inr []"
| "compileConditions lib i (c # cs) =
     (case compileCondition lib c of
        Inl err \<Rightarrow> Inl (BadCondition i err)
      | Inr cc \<Rightarrow>
          (case compileConditions lib (Suc i) cs of Inl err \<Rightarrow> Inl err | Inr ccs \<Rightarrow> Inr (cc # ccs)))"

fun lowerSignals :: "'re ruleLib \<Rightarrow> string list \<Rightarrow> rule_error + string list" where
  "lowerSignals lib [] = Inr []"
| "lowerSignals lib (s # ss) =
     (let l = ToLower (libUni lib) s
      in if l \<in> {signalTraces, signalMetrics, signalLogs}
         then (case lowerSignals lib ss of Inl err \<Rightarrow> Inl err | Inr ls \<Rightarrow> Inr (l # ls))
         else Inl (UnknownSignal s))"

definition normalizeSignals :: "'re ruleLib \<Rightarrow> string list \<Rightarrow> rule_error + string list" where
  "normalizeSignals lib ss =
     (if length ss = 0 then Inr [signalTraces, signalMetrics, signalLogs] else lowerSignals lib ss)"

text \<open>A disabled rule is not an error and not loaded: \<open>Inr None\<close>.\<close>

definition compile :: "'re ruleLib \<Rightarrow> string \<Rightarrow> string \<Rightarrow> rule_error + ('re compiledRule \<times> string list) option" where
  "compile lib raw docID =
     (case jsonUnmarshal lib raw of
        Inl err \<Rightarrow> Inl (InvalidJSON err)
      | Inr r \<Rightarrow>
          let rid = (if ID r = '''' then docID else ID r);
              act = (if Action r = '''' then actionDrop else Action r)
          in if Enabled r = Some False then Inr None
             else if act \<noteq> actionDrop \<and> act \<noteq> actionKeep then Inl (BadAction act)
             else case normalizeSignals lib (Signals r) of
               Inl err \<Rightarrow> Inl err
             | Inr signals \<Rightarrow>
                 if length (Conditions r) = 0 then Inl NoConditions
                 else case (if ExpiresAt r \<noteq> '''' then parseRFC3339 lib (ExpiresAt r) else Inr None) of
                   Inl err \<Rightarrow> Inl (BadExpiry err)
                 | Inr t \<Rightarrow>
                     (case compileConditions lib 0 (Conditions r) of
                        Inl err \<Rightarrow> Inl err
                      | Inr ccs \<Rightarrow>
                          Inr (Some (\<lparr>crId = rid, crAction = act, crConds = ccs, crExpiresAt = t\<rparr>, signals))))"

section \<open>Rule sets\<close>

definition addRule :: "'re compiledRule \<Rightarrow> string \<Rightarrow> 're ruleSet \<Rightarrow> 're ruleSet" where
  "addRule cr s rs =
     (if s = signalTraces then rs\<lparr>rsTraces := rsTraces rs @ [cr]\<rparr>
      else if s = signalMetrics then rs\<lparr>rsMetrics := rsMetrics rs @ [cr]\<rparr>
      else if s = signalLogs then rs\<lparr>rsLogs := rsLogs rs @ [cr]\<rparr>
      else rs)"

definition isKeep :: "'re compiledRule \<Rightarrow> bool" where
  "isKeep r \<longleftrightarrow> crAction r = actionKeep"

text \<open>\<^verbatim>\<open>sort.SliceStable\<close> with keep before anything else; \<^const>\<open>sort_key\<close> is a stable sort.\<close>

definition sortKeepFirst :: "'re compiledRule list \<Rightarrow> 're compiledRule list" where
  "sortKeepFirst rules = sort_key (\<lambda>r. if isKeep r then 0 else (1 :: nat)) rules"

definition docOf :: "(string \<times> string) list \<Rightarrow> string \<Rightarrow> string" where
  "docOf docs docID = (case map_of docs docID of Some d \<Rightarrow> d | None \<Rightarrow> '''')"

text \<open>
  The loop over the sorted ids: \<open>n\<close> is their number, the result the number of rules loaded, the rule
  set and the calls of \<^verbatim>\<open>onInvalid\<close>.
\<close>

fun loadRules ::
  "'re ruleLib \<Rightarrow> (string \<times> string) list \<Rightarrow> int \<Rightarrow> int \<Rightarrow> string list \<Rightarrow> int \<Rightarrow> 're ruleSet \<Rightarrow> (string \<times> rule_error) list
   \<Rightarrow> int \<times> 're ruleSet \<times> (string \<times> rule_error) list" where
  "loadRules lib docs maxRules n [] loaded rs bad = (loaded, rs, bad)"
| "loadRules lib docs maxRules n (docID # ids) loaded rs bad =
     (if 0 \<le> maxRules \<and> maxRules \<le> loaded
      then (loaded, rs\<lparr>rsInvalid := rsInvalid rs + (n - loaded)\<rparr>, bad @ [(docID, MaxRulesReached maxRules)])
      else case compile lib (docOf docs docID) docID of
        Inl err \<Rightarrow> loadRules lib docs maxRules n ids loaded (rs\<lparr>rsInvalid := rsInvalid rs + 1\<rparr>) (bad @ [(docID, err)])
      | Inr None \<Rightarrow> loadRules lib docs maxRules n ids loaded rs bad
      | Inr (Some (cr, signals)) \<Rightarrow>
          loadRules lib docs maxRules n ids (loaded + 1) (fold (addRule cr) signals rs) bad)"

definition buildRuleSet ::
  "'re ruleLib \<Rightarrow> (string \<times> string) list \<Rightarrow> int \<Rightarrow> int \<Rightarrow> gotime \<Rightarrow> 're ruleSet \<times> (string \<times> rule_error) list" where
  "buildRuleSet lib docs version maxRules now =
     (let ids = sort (map fst docs);
          (loaded, rs, bad) = loadRules lib docs maxRules (int (length ids)) ids 0
             (emptyRuleSet\<lparr>rsVersion := version, rsLoadedA := Some now\<rparr>) [];
          rs1 = rs\<lparr>rsTotal := loaded\<rparr>;
          rs2 = rs1\<lparr>rsTraces := sortKeepFirst (rsTraces rs1), rsMetrics := sortKeepFirst (rsMetrics rs1),
                    rsLogs := sortKeepFirst (rsLogs rs1)\<rparr>
      in (rs2\<lparr>rsNeedsBody := list_ex (\<lambda>r. list_ex (\<lambda>c. ccSource c = sourceBody) (crConds r)) (rsLogs rs2)\<rparr>, bad))"

end
