(* ===== verification/Sf_Matching.thy ===== *)
theory Sf_Matching
  imports Sf_Rules
begin

text \<open>
  What the filter rules mean: compilation against a reference reading of the rule document, the
  order of a rule set, and which documents a rule set is made of. The properties say that keep
  rules win, that a rule set does not depend on the order of the hash, that the cap holds, and
  that a malformed document disturbs no other.
\<close>

section \<open>Conditions\<close>

text \<open>The field a condition reads, and the reading of a condition straight from its document.\<close>

definition fieldOf :: "'re ruleLib \<Rightarrow> evalCtx \<Rightarrow> string \<Rightarrow> string \<Rightarrow> string option" where
  "fieldOf lib e src k =
     (let text = (\<lambda>s. if s = '''' then None else Some s)
      in if src = sourceResource then map_option (libAsString lib) (map_of (ecResource e) k)
         else if src = sourceAttribute then map_option (libAsString lib) (map_of (ecAttrs e) k)
         else if src = sourceName then text (ecName e)
         else if src = sourceBody then text (ecBody e)
         else if src = sourceSeverity then text (ecSeverity e)
         else if src = sourceScope then text (ecScope e)
         else None)"

definition needles :: "Condition \<Rightarrow> string list" where
  "needles c = (if Values c = [] then [Value c] else Values c)"

definition cond_holds :: "'re ruleLib \<Rightarrow> Condition \<Rightarrow> evalCtx \<Rightarrow> bool" where
  "cond_holds lib c e =
     (let opr = (if Op c = '''' then opEquals else Op c);
          f = (if IgnoreCase c then ToLower (libUni lib) else (\<lambda>s. s))
      in if opr = opNotExists then fieldOf lib e (Source c) (Key c) = None
         else (\<exists>v. fieldOf lib e (Source c) (Key c) = Some v
           \<and> (opr = opExists
            \<or> opr = opEquals \<and> f v \<in> set (map f (needles c))
            \<or> opr = opNotEquals \<and> f v \<notin> set (map f (needles c))
            \<or> opr = opContains \<and> sublist (f (Value c)) (f v)
            \<or> opr = opPrefix \<and> prefix (f (Value c)) (f v)
            \<or> opr = opSuffix \<and> suffix (f (Value c)) (f v)
            \<or> opr = opRegex \<and> (\<exists>r. regexpCompile lib (Value c) = Inr r \<and> regexpMatch lib (Some r) (f v)))))"

lemma lookup_field:
  "lookup lib e c = (case fieldOf lib e (ccSource c) (ccKey c) of
      Some v \<Rightarrow> (v, True) | None \<Rightarrow> ('''', False))"
  by (auto simp: lookup_def fieldOf_def Let_def split: option.split)

lemma foldCase_sel [simp]:
  "ccSource (foldCase lib cc) = ccSource cc" "ccKey (foldCase lib cc) = ccKey cc" "ccOp (foldCase lib cc) = ccOp cc"
  "ccRe (foldCase lib cc) = ccRe cc" "ccIgnoreCase (foldCase lib cc) = ccIgnoreCase cc"
  "ccValue (foldCase lib cc) = (if ccIgnoreCase cc then ToLower (libUni lib) (ccValue cc) else ccValue cc)"
  "ccValues (foldCase lib cc) = (if ccIgnoreCase cc then map (ToLower (libUni lib)) (ccValues cc) else ccValues cc)"
  by (simp_all add: foldCase_def)

lemmas ops_distinct [simp] = rule_consts

text \<open>What a compiled condition is made of.\<close>

lemma compileCondition_sel:
  assumes "compileCondition lib c = Inr cc"
  shows "ccSource cc = Source c" "ccKey cc = Key c" "ccOp cc = (if Op c = '''' then opEquals else Op c)"
    "ccIgnoreCase cc = IgnoreCase c"
    "ccOp cc \<in> {opEquals, opNotEquals, opContains, opPrefix, opSuffix} \<Longrightarrow>
       ccValue cc = (if IgnoreCase c then ToLower (libUni lib) (Value c) else Value c)
       \<and> ccValues cc = (if IgnoreCase c then map (ToLower (libUni lib)) (Values c) else Values c)"
    "ccOp cc = opRegex \<Longrightarrow> \<exists>r. regexpCompile lib (Value c) = Inr r \<and> ccRe cc = Some r"
  using assms
  by (auto simp: compileCondition_def Let_def split: if_splits option.splits sum.splits)

lemma compileCondition_ops:
  assumes "compileCondition lib c = Inr cc"
  shows "ccOp cc \<in> {opExists, opNotExists, opEquals, opNotEquals, opContains, opPrefix, opSuffix, opRegex}"
    "ccSource cc \<in> {sourceResource, sourceAttribute} \<Longrightarrow> ccKey cc \<noteq> ''''"
    "ccSource cc \<in> {sourceResource, sourceAttribute, sourceName, sourceBody, sourceSeverity, sourceScope}"
  using assms
  by (auto simp: compileCondition_def checkSource_def Let_def split: if_splits option.splits sum.splits)

lemma anyOf_needles:
  assumes "compileCondition lib c = Inr cc" "ccOp cc \<in> {opEquals, opNotEquals}"
  shows "anyOf cc v \<longleftrightarrow> v \<in> set (map (if IgnoreCase c then ToLower (libUni lib) else (\<lambda>s. s)) (needles c))"
proof -
  have "ccValue cc = (if IgnoreCase c then ToLower (libUni lib) (Value c) else Value c)"
    "ccValues cc = (if IgnoreCase c then map (ToLower (libUni lib)) (Values c) else Values c)"
    using compileCondition_sel(5)[OF assms(1)] assms(2) by auto
  then show ?thesis by (auto simp: anyOf_def needles_def list_ex_iff)
qed

lemma eval_compiled:
  assumes cc: "compileCondition lib c = Inr cc"
  shows "eval_cond lib cc e = cond_holds lib c e"
proof -
  let ?o = "if Op c = '''' then opEquals else Op c"
  let ?f = "if IgnoreCase c then ToLower (libUni lib) else (\<lambda>s. s)"
  note sel = compileCondition_sel[OF cc]
  have o: "?o \<in> {opExists, opNotExists, opEquals, opNotEquals, opContains, opPrefix, opSuffix, opRegex}"
    using compileCondition_ops(1)[OF cc] sel(3) by simp
  have any: "?o \<in> {opEquals, opNotEquals} \<Longrightarrow> anyOf cc v \<longleftrightarrow> v \<in> set (map ?f (needles c))" for v
    using anyOf_needles[OF cc] sel(3) by simp
  have val: "?o \<in> {opContains, opPrefix, opSuffix} \<Longrightarrow> ccValue cc = ?f (Value c)"
    using sel(3,5) by auto
  have rx: "?o = opRegex \<Longrightarrow> \<exists>r. regexpCompile lib (Value c) = Inr r \<and> ccRe cc = Some r"
    using sel(3,6) by simp
  show ?thesis
  proof (cases "fieldOf lib e (Source c) (Key c)")
    case None
    then show ?thesis using o by (auto simp: eval_cond_def cond_holds_def lookup_field sel(1-4) Let_def)
  next
    case (Some v)
    have got: "(if IgnoreCase c then ToLower (libUni lib) v else v) = ?f v" by simp
    show ?thesis
      using o any[of "?f v"] val rx
      unfolding eval_cond_def cond_holds_def lookup_field sel(1-4) Let_def Some option.case prod.case got
      by (elim insertE) auto
  qed
qed

section \<open>Rules\<close>

definition rule_holds :: "'re ruleLib \<Rightarrow> Rule \<Rightarrow> evalCtx \<Rightarrow> gotime \<Rightarrow> bool" where
  "rule_holds lib r e now \<longleftrightarrow>
     (\<forall>c \<in> set (Conditions r). cond_holds lib c e)
   \<and> (ExpiresAt r \<noteq> '''' \<longrightarrow> (\<forall>t. parseRFC3339 lib (ExpiresAt r) = Inr (Some t) \<longrightarrow> now \<le> t))"

lemma compileConditions_all2:
  "compileConditions lib i cs = Inr ccs \<Longrightarrow> list_all2 (\<lambda>c cc. compileCondition lib c = Inr cc) cs ccs"
  by (induction lib i cs arbitrary: ccs rule: compileConditions.induct) (auto split: sum.splits)

lemma compileConditions_eval:
  "compileConditions lib i cs = Inr ccs \<Longrightarrow> list_all (\<lambda>cc. eval_cond lib cc e) ccs \<longleftrightarrow> (\<forall>c \<in> set cs. cond_holds lib c e)"
  by (induction lib i cs arbitrary: ccs rule: compileConditions.induct) (auto simp: eval_compiled split: sum.splits)

lemma lowerSignals_set:
  "lowerSignals lib ss = Inr ls \<Longrightarrow> set ls \<subseteq> {signalTraces, signalMetrics, signalLogs} \<and> set ls = ToLower (libUni lib) ` set ss"
  by (induction ss arbitrary: ls) (fastforce simp: Let_def split: if_splits sum.splits)+

lemma compile_Some:
  assumes "compile lib raw i = Inr (Some (cr, ss))"
  obtains r where "jsonUnmarshal lib raw = Inr r" "Enabled r \<noteq> Some False"
    "crId cr = (if ID r = '''' then i else ID r)"
    "crAction cr = (if Action r = '''' then actionDrop else Action r)" "crAction cr \<in> {actionDrop, actionKeep}"
    "normalizeSignals lib (Signals r) = Inr ss" "Conditions r \<noteq> []"
    "compileConditions lib 0 (Conditions r) = Inr (crConds cr)"
    "(if ExpiresAt r \<noteq> '''' then parseRFC3339 lib (ExpiresAt r) else Inr None) = Inr (crExpiresAt cr)"
proof -
  obtain r where r: "jsonUnmarshal lib raw = Inr r"
    using assms by (cases "jsonUnmarshal lib raw") (auto simp: compile_def)
  show thesis
    by (rule that[OF r]; use assms r in
        \<open>auto simp: compile_def Let_def simp del: rule_consts split: if_splits sum.splits option.splits\<close>)
qed

lemma compile_means:
  assumes "compile lib raw i = Inr (Some (cr, ss))"
  shows "\<exists>r. jsonUnmarshal lib raw = Inr r \<and> Enabled r \<noteq> Some False
    \<and> (\<forall>e now. matches lib cr e now \<longleftrightarrow> rule_holds lib r e now)"
proof -
  obtain r where r: "jsonUnmarshal lib raw = Inr r" "Enabled r \<noteq> Some False"
    "compileConditions lib 0 (Conditions r) = Inr (crConds cr)"
    "(if ExpiresAt r \<noteq> '''' then parseRFC3339 lib (ExpiresAt r) else Inr None) = Inr (crExpiresAt cr)"
    by (rule compile_Some[OF assms])
  have "matches lib cr e now \<longleftrightarrow> rule_holds lib r e now" for e now
    using r(4) by (auto simp: matches_def rule_holds_def compileConditions_eval[OF r(3)] split: if_splits option.splits)
  with r show ?thesis by blast
qed


text \<open>Documents for evaluation: a drop rule, an exception from it, and one that is no JSON.\<close>

definition exampleCond :: "string \<Rightarrow> string \<Rightarrow> string \<Rightarrow> string \<Rightarrow> bool \<Rightarrow> Condition" where
  "exampleCond src k o' v ic = \<lparr>Source = src, Key = k, Op = o', Value = v, Values = [], IgnoreCase = ic\<rparr>"

definition exampleDoc :: "string \<Rightarrow> Condition list \<Rightarrow> Rule" where
  "exampleDoc act cs = \<lparr>ID = '''', Description = '''', Enabled = None, Action = act, Signals = [],
     Conditions = cs, ExpiresAt = ''''\<rparr>"

definition exampleRuleLib :: "string ruleLib" where
  "exampleRuleLib = \<lparr>jsonUnmarshal = (\<lambda>s.
       if s = ''drop'' then Inr (exampleDoc '''' [exampleCond ''resource'' ''service.name'' '''' ''Shop'' True])
       else if s = ''keep'' then Inr (exampleDoc ''keep'' [exampleCond ''name'' '''' ''prefix'' ''pay'' False])
       else Inl ''syntax''),
     regexpCompile = Inr, regexpMatch = (\<lambda>r s. r = Some s), parseRFC3339 = (\<lambda>_. Inr None),
     libAsString = (\<lambda>v. case v of VStr s \<Rightarrow> s | _ \<Rightarrow> ''''), libUni = (\<lambda>s. s)\<rparr>"

definition exampleDropRule :: "string compiledRule" where
  "exampleDropRule = \<lparr>crId = ''d'', crAction = ''drop'',
     crConds = [\<lparr>ccSource = ''resource'', ccKey = ''service.name'', ccOp = ''equals'', ccValue = ''shop'', ccValues = [],
                 ccRe = None, ccIgnoreCase = True\<rparr>], crExpiresAt = None\<rparr>"

definition exampleKeepRule :: "string compiledRule" where
  "exampleKeepRule = \<lparr>crId = ''k'', crAction = ''keep'',
     crConds = [\<lparr>ccSource = ''name'', ccKey = '''', ccOp = ''prefix'', ccValue = ''pay'', ccValues = [],
                 ccRe = None, ccIgnoreCase = False\<rparr>], crExpiresAt = None\<rparr>"

definition exampleItem :: "string \<Rightarrow> evalCtx" where
  "exampleItem nm = \<lparr>ecResource = [(''service.name'', VStr ''SHOP'')], ecAttrs = [], ecScope = '''', ecName = nm,
     ecBody = '''', ecSeverity = ''''\<rparr>"

lemma example_lower: "ToLower u ''Shop'' = ''shop''" "ToLower u ''SHOP'' = ''shop''"
  by code_simp+

lemma example_compile:
  "compile exampleRuleLib ''drop'' ''d'' = Inr (Some (exampleDropRule, [''traces'', ''metrics'', ''logs'']))"
  "compile exampleRuleLib ''keep'' ''k'' = Inr (Some (exampleKeepRule, [''traces'', ''metrics'', ''logs'']))"
  "compile exampleRuleLib ''?'' b = Inl (InvalidJSON ''syntax'')"
  by (simp_all add: compile_def exampleRuleLib_def exampleDoc_def exampleCond_def exampleDropRule_def exampleKeepRule_def
      normalizeSignals_def compileCondition_def checkSource_def foldCase_def example_lower Let_def)

lemma example_matches:
  "matches exampleRuleLib exampleDropRule (exampleItem nm) now"
  "matches exampleRuleLib exampleKeepRule (exampleItem ''pay/1'') now"
  "\<not> matches exampleRuleLib exampleKeepRule (exampleItem ''get'') now"
  by (simp_all add: matches_def exampleDropRule_def exampleKeepRule_def eval_cond_def lookup_def exampleItem_def
      exampleRuleLib_def anyOf_def example_lower)


section \<open>Rule sets\<close>

lemma sortKeepFirst_split: "sortKeepFirst rules = filter isKeep rules @ filter (\<lambda>r. \<not> isKeep r) rules"
proof -
  have keep: "insort_key (\<lambda>r. if isKeep r then 0 else (1 :: nat)) x ys = x # ys" if "isKeep x" for x and ys :: "'re compiledRule list"
    using that by (cases ys) simp_all
  have other: "insort_key (\<lambda>r. if isKeep r then 0 else (1 :: nat)) x (ks @ ys) = ks @ x # ys"
    if "\<not> isKeep x" "\<forall>k \<in> set ks. isKeep k" "\<forall>y \<in> set ys. \<not> isKeep y" for x and ks ys :: "'re compiledRule list"
    using that by (induction ks) (simp_all, cases ys, simp_all)
  show ?thesis
    unfolding sortKeepFirst_def by (induction rules) (simp_all add: keep other)
qed

lemma sortKeepFirst_set: "set (sortKeepFirst rules) = set rules"
  by (auto simp: sortKeepFirst_split)

lemma firstMatch_None: "firstMatch lib e now rs = None \<longleftrightarrow> (\<forall>r \<in> set rs. \<not> matches lib r e now)"
  by (induction rs) auto

lemma firstMatch_Some: "firstMatch lib e now rs = Some r \<Longrightarrow> r \<in> set rs \<and> matches lib r e now"
  by (induction rs) (auto split: if_splits)

lemma firstMatch_append:
  "firstMatch lib e now (xs @ ys) = (case firstMatch lib e now xs of None \<Rightarrow> firstMatch lib e now ys | Some r \<Rightarrow> Some r)"
  by (induction xs) auto

text \<open>In a list with the keep rules first, a keep rule that matches is the one that claims the item.\<close>

lemma firstMatch_keepFirst:
  "(\<exists>r. firstMatch lib e now (sortKeepFirst rules) = Some r \<and> \<not> isKeep r)
   \<longleftrightarrow> (\<exists>r \<in> set rules. \<not> isKeep r \<and> matches lib r e now) \<and> \<not> (\<exists>r \<in> set rules. isKeep r \<and> matches lib r e now)"
proof (cases "firstMatch lib e now (filter isKeep rules)")
  case None
  then have none: "\<not> (\<exists>r \<in> set rules. isKeep r \<and> matches lib r e now)" by (auto simp: firstMatch_None)
  have "(\<exists>r. firstMatch lib e now (filter (\<lambda>r. \<not> isKeep r) rules) = Some r \<and> \<not> isKeep r)
      \<longleftrightarrow> (\<exists>r \<in> set rules. \<not> isKeep r \<and> matches lib r e now)"
    using firstMatch_Some[of lib e now "filter (\<lambda>r. \<not> isKeep r) rules"] firstMatch_None[of lib e now "filter (\<lambda>r. \<not> isKeep r) rules"]
    by (cases "firstMatch lib e now (filter (\<lambda>r. \<not> isKeep r) rules)") auto
  with none None show ?thesis by (simp add: sortKeepFirst_split firstMatch_append)
next
  case (Some r)
  then show ?thesis using firstMatch_Some[OF Some] by (auto simp: sortKeepFirst_split firstMatch_append)
qed

text \<open>
  The documents a rule set is made of: those that compile to an enabled rule, in the order of
  their ids, up to the cap.
\<close>

definition goodRules :: "'re ruleLib \<Rightarrow> (string \<times> string) list \<Rightarrow> string list \<Rightarrow> ('re compiledRule \<times> string list) list" where
  "goodRules lib docs ids = List.map_filter (\<lambda>i. case compile lib (docOf docs i) i of
      Inl err \<Rightarrow> None | Inr res \<Rightarrow> res) ids"

definition capped :: "int \<Rightarrow> 'a list \<Rightarrow> 'a list" where
  "capped m xs = (if m < 0 then xs else take (nat m) xs)"

definition signalRules :: "string \<Rightarrow> ('re compiledRule \<times> string list) list \<Rightarrow> 're compiledRule list" where
  "signalRules s T = concat (map (\<lambda>(cr, ss). map (\<lambda>_. cr) (filter (\<lambda>s'. s' = s) ss)) T)"

lemma signalRules_simps [simp]:
  "signalRules s [] = []"
  "signalRules s ((cr, ss) # T) = map (\<lambda>_. cr) (filter (\<lambda>s'. s' = s) ss) @ signalRules s T"
  by (simp_all add: signalRules_def)

lemma signalRules_set: "r \<in> set (signalRules s T) \<longleftrightarrow> (\<exists>ss. (r, ss) \<in> set T \<and> s \<in> set ss)"
  by (induction T) auto

lemma goodRules_simps [simp]:
  "goodRules lib docs [] = []"
  "goodRules lib docs (i # ids) = (case compile lib (docOf docs i) i of
      Inr (Some p) \<Rightarrow> p # goodRules lib docs ids | _ \<Rightarrow> goodRules lib docs ids)"
  by (auto simp: goodRules_def map_filter_simps split: sum.split option.split)

lemma addRules_lists:
  "rsTraces (fold (addRule cr) ss rs) = rsTraces rs @ map (\<lambda>_. cr) (filter (\<lambda>s. s = signalTraces) ss)"
  "rsMetrics (fold (addRule cr) ss rs) = rsMetrics rs @ map (\<lambda>_. cr) (filter (\<lambda>s. s = signalMetrics) ss)"
  "rsLogs (fold (addRule cr) ss rs) = rsLogs rs @ map (\<lambda>_. cr) (filter (\<lambda>s. s = signalLogs) ss)"
  "rsInvalid (fold (addRule cr) ss rs) = rsInvalid rs" "rsVersion (fold (addRule cr) ss rs) = rsVersion rs"
  by (induction ss arbitrary: rs) (simp_all add: addRule_def)

definition loadedRules :: "'re ruleLib \<Rightarrow> (string \<times> string) list \<Rightarrow> int \<Rightarrow> ('re compiledRule \<times> string list) list" where
  "loadedRules lib docs maxRules = capped maxRules (goodRules lib docs (sort (map fst docs)))"

lemma capped_Cons: "0 < m \<Longrightarrow> capped m (x # xs) = x # capped (m - 1) xs"
proof -
  assume "0 < m"
  then have "nat m = Suc (nat (m - 1))" by simp
  with \<open>0 < m\<close> show ?thesis by (simp add: capped_def)
qed

text \<open>The loop, with the cap that is left: \<open>- 1\<close> for none.\<close>

definition room :: "int \<Rightarrow> int \<Rightarrow> int" where
  "room maxRules loaded = (if maxRules < 0 then - 1 else max 0 (maxRules - loaded))"

lemma room_full: "0 \<le> m \<and> m \<le> l \<Longrightarrow> capped (room m l) xs = []"
  by (simp add: room_def capped_def)

lemma room_Cons: "\<not> (0 \<le> m \<and> m \<le> l) \<Longrightarrow> capped (room m l) (x # xs) = x # capped (room m (l + 1)) xs"
  using capped_Cons[of "m - l" x xs] by (cases "m < 0") (auto simp: room_def capped_def diff_diff_eq)

lemma loadRules_spec:
  assumes "loadRules lib docs m n ids l rs bad = (l', rs', bad')"
  defines "T \<equiv> capped (room m l) (goodRules lib docs ids)"
  shows "l' = l + int (length T) \<and> rsVersion rs' = rsVersion rs
    \<and> rsTraces rs' = rsTraces rs @ signalRules signalTraces T
    \<and> rsMetrics rs' = rsMetrics rs @ signalRules signalMetrics T
    \<and> rsLogs rs' = rsLogs rs @ signalRules signalLogs T"
  using assms(1) unfolding T_def
proof (induction lib docs m n ids l rs bad rule: loadRules.induct)
  case (1 lib docs m n l rs bad)
  then show ?case by (auto simp: capped_def)
next
  case (2 lib docs m n i ids l rs bad)
  show ?case
  proof (cases "0 \<le> m \<and> m \<le> l")
    case True
    with "2.prems" show ?thesis by (auto simp: room_full simp del: rule_consts goodRules_simps)
  next
    case False
    show ?thesis
    proof (cases "compile lib (docOf docs i) i")
      case (Inl err)
      then show ?thesis using "2.IH"(1)[OF False Inl] "2.prems" False by (simp del: rule_consts)
    next
      case (Inr res)
      show ?thesis
      proof (cases res)
        case None
        then show ?thesis using "2.IH"(2)[OF False Inr None] "2.prems" False Inr by (simp del: rule_consts)
      next
        case (Some p)
        obtain cr ss where p: "p = (cr, ss)" by force
        show ?thesis
          using "2.IH"(3)[OF False Inr Some p[symmetric]] "2.prems" False Inr Some p
          by (simp add: room_Cons addRules_lists del: rule_consts)
      qed
    qed
  qed
qed

definition loadRun ::
  "'re ruleLib \<Rightarrow> (string \<times> string) list \<Rightarrow> int \<Rightarrow> int \<Rightarrow> gotime \<Rightarrow> int \<times> 're ruleSet \<times> (string \<times> rule_error) list" where
  "loadRun lib docs version m now =
     loadRules lib docs m (int (length docs)) (sort (map fst docs)) 0
       (emptyRuleSet\<lparr>rsVersion := version, rsLoadedA := Some now\<rparr>) []"

lemma capped_room [simp]: "capped (room m 0) xs = capped m xs"
  by (simp add: room_def capped_def)

lemma loadRun_spec:
  assumes "loadRun lib docs version m now = (l, rs, bad)"
  shows "l = int (length (loadedRules lib docs m))" "rsVersion rs = version"
    "rsTraces rs = signalRules signalTraces (loadedRules lib docs m)"
    "rsMetrics rs = signalRules signalMetrics (loadedRules lib docs m)"
    "rsLogs rs = signalRules signalLogs (loadedRules lib docs m)"
  using loadRules_spec[OF assms[unfolded loadRun_def]]
  by (simp_all add: loadedRules_def emptyRuleSet_def del: rule_consts)

lemma buildRuleSet_sel:
  defines "T \<equiv> \<lambda>lib docs m. loadedRules lib docs m"
  shows "rsTraces (fst (buildRuleSet lib docs version m now)) = sortKeepFirst (signalRules signalTraces (T lib docs m))"
    "rsMetrics (fst (buildRuleSet lib docs version m now)) = sortKeepFirst (signalRules signalMetrics (T lib docs m))"
    "rsLogs (fst (buildRuleSet lib docs version m now)) = sortKeepFirst (signalRules signalLogs (T lib docs m))"
    "rsTotal (fst (buildRuleSet lib docs version m now)) = int (length (T lib docs m))"
    "rsVersion (fst (buildRuleSet lib docs version m now)) = version"
    "rsNeedsBody (fst (buildRuleSet lib docs version m now))
      = list_ex (\<lambda>r. list_ex (\<lambda>c. ccSource c = sourceBody) (crConds r)) (rsLogs (fst (buildRuleSet lib docs version m now)))"
proof -
  obtain l rs bad where r: "loadRun lib docs version m now = (l, rs, bad)" by (metis prod_cases3)
  have eq: "buildRuleSet lib docs version m now =
    (let rs1 = rs\<lparr>rsTotal := l\<rparr>;
          rs2 = rs1\<lparr>rsTraces := sortKeepFirst (rsTraces rs1), rsMetrics := sortKeepFirst (rsMetrics rs1),
                    rsLogs := sortKeepFirst (rsLogs rs1)\<rparr>
      in (rs2\<lparr>rsNeedsBody := list_ex (\<lambda>r. list_ex (\<lambda>c. ccSource c = sourceBody) (crConds r)) (rsLogs rs2)\<rparr>, bad))"
    using r by (simp add: buildRuleSet_def loadRun_def del: rule_consts)
  show "rsTraces (fst (buildRuleSet lib docs version m now)) = sortKeepFirst (signalRules signalTraces (T lib docs m))"
    "rsMetrics (fst (buildRuleSet lib docs version m now)) = sortKeepFirst (signalRules signalMetrics (T lib docs m))"
    "rsLogs (fst (buildRuleSet lib docs version m now)) = sortKeepFirst (signalRules signalLogs (T lib docs m))"
    "rsTotal (fst (buildRuleSet lib docs version m now)) = int (length (T lib docs m))"
    "rsVersion (fst (buildRuleSet lib docs version m now)) = version"
    "rsNeedsBody (fst (buildRuleSet lib docs version m now))
      = list_ex (\<lambda>r. list_ex (\<lambda>c. ccSource c = sourceBody) (crConds r)) (rsLogs (fst (buildRuleSet lib docs version m now)))"
    unfolding eq T_def Let_def by (simp_all add: loadRun_spec[OF r] del: rule_consts)
qed

lemma buildRuleSet_rules:
  "s \<in> {signalTraces, signalMetrics, signalLogs} \<Longrightarrow>
   rulesFor (fst (buildRuleSet lib docs version m now)) s = sortKeepFirst (signalRules s (loadedRules lib docs m))"
  by (auto simp: rulesFor_def buildRuleSet_sel)

lemma goodRules_compiled:
  "(cr, ss) \<in> set (goodRules lib docs ids) \<longleftrightarrow> (\<exists>i \<in> set ids. compile lib (docOf docs i) i = Inr (Some (cr, ss)))"
  by (induction ids) (auto split: sum.splits option.splits)

lemma loadedRules_compiled:
  assumes "(cr, ss) \<in> set (loadedRules lib docs m)"
  obtains i where "i \<in> fst ` set docs" "compile lib (docOf docs i) i = Inr (Some (cr, ss))"
proof -
  have "(cr, ss) \<in> set (goodRules lib docs (sort (map fst docs)))"
    using assms by (auto simp: loadedRules_def capped_def split: if_splits dest: in_set_takeD)
  then show thesis using that by (auto simp: goodRules_compiled)
qed

lemma loadedRules_actions: "(cr, ss) \<in> set (loadedRules lib docs m) \<Longrightarrow> crAction cr = actionDrop \<or> crAction cr = actionKeep"
  by (erule loadedRules_compiled, erule compile_Some) auto

lemma loadedRules_signals:
  assumes "(cr, ss) \<in> set (loadedRules lib docs m)"
  shows "set ss \<subseteq> {signalTraces, signalMetrics, signalLogs}"
proof -
  obtain i where i: "compile lib (docOf docs i) i = Inr (Some (cr, ss))" by (rule loadedRules_compiled[OF assms])
  have "normalizeSignals lib sigs = Inr ss \<Longrightarrow> ?thesis" for sigs
    using lowerSignals_set[of lib sigs ss] by (auto simp: normalizeSignals_def split: if_splits)
  then show ?thesis using compile_Some[OF i] by metis
qed

lemma shouldDrop_iff:
  "snd (shouldDrop lib (fst (buildRuleSet lib docs version m t)) s e now) \<longleftrightarrow>
     (\<exists>cr ss. (cr, ss) \<in> set (loadedRules lib docs m) \<and> s \<in> set ss \<and> crAction cr = actionDrop \<and> matches lib cr e now)
   \<and> \<not> (\<exists>cr ss. (cr, ss) \<in> set (loadedRules lib docs m) \<and> s \<in> set ss \<and> crAction cr = actionKeep \<and> matches lib cr e now)"
proof (cases "s \<in> {signalTraces, signalMetrics, signalLogs}")
  case True
  let ?rules = "signalRules s (loadedRules lib docs m)"
  have drop: "\<not> isKeep r \<longleftrightarrow> crAction r = actionDrop" if "r \<in> set ?rules" for r
    using that loadedRules_actions[of r _ lib docs m] by (auto simp: isKeep_def signalRules_set)
  have mem: "r \<in> set ?rules" if "firstMatch lib e now (sortKeepFirst ?rules) = Some r" for r
    using firstMatch_Some[OF that] by (simp add: sortKeepFirst_set)
  have "snd (shouldDrop lib (fst (buildRuleSet lib docs version m t)) s e now)
      \<longleftrightarrow> (\<exists>r. firstMatch lib e now (sortKeepFirst ?rules) = Some r \<and> \<not> isKeep r)"
    using mem drop
    by (auto simp: shouldDrop_def match_rule_def buildRuleSet_rules[OF True] simp del: rule_consts split: option.splits)
  also have "\<dots> \<longleftrightarrow> (\<exists>r \<in> set ?rules. \<not> isKeep r \<and> matches lib r e now) \<and> \<not> (\<exists>r \<in> set ?rules. isKeep r \<and> matches lib r e now)"
    by (rule firstMatch_keepFirst)
  also have "\<dots> \<longleftrightarrow> (\<exists>r \<in> set ?rules. crAction r = actionDrop \<and> matches lib r e now)
      \<and> \<not> (\<exists>r \<in> set ?rules. crAction r = actionKeep \<and> matches lib r e now)"
    using drop by (auto simp: isKeep_def simp del: rule_consts)
  finally show ?thesis unfolding Bex_def signalRules_set by blast
next
  case False
  then have "rulesFor rs s = []" for rs :: "'a ruleSet" by (auto simp: rulesFor_def)
  then show ?thesis using False loadedRules_signals[of _ _ lib docs m] by (auto simp: shouldDrop_def match_rule_def)
qed

text \<open>
  C25. An item is dropped exactly when a loaded drop rule of its signal claims it and no loaded
  keep rule does: the exceptions win over every drop rule, whatever the ids are.
\<close>

theorem keep_rules_win:
  "snd (shouldDrop lib (fst (buildRuleSet lib docs version m t)) s e now) \<longleftrightarrow>
     (\<exists>cr ss. (cr, ss) \<in> set (loadedRules lib docs m) \<and> s \<in> set ss \<and> crAction cr = actionDrop \<and> matches lib cr e now)
   \<and> \<not> (\<exists>cr ss. (cr, ss) \<in> set (loadedRules lib docs m) \<and> s \<in> set ss \<and> crAction cr = actionKeep \<and> matches lib cr e now)"
  by (rule shouldDrop_iff)

text \<open>
  C32. Every replica builds the same rule set from the same hash: neither the rules, nor their
  order, nor the reports of ignored documents depend on the order in which the hash is read.
\<close>

theorem rule_set_order_independent:
  assumes "mset docs = mset docs'" "distinct (map fst docs)"
  shows "buildRuleSet lib docs version m now = buildRuleSet lib docs' version m now"
proof -
  have ms: "mset (map fst docs) = mset (map fst docs')" using assms(1) by (metis mset_map)
  have "distinct (map fst docs')" using assms(2) ms by (metis mset_eq_imp_distinct_iff)
  then have "map_of docs = map_of docs'"
    using assms by (metis map_of_eqI map_of_eq_Some_iff set_mset_mset mset_eq_setD map_of_inject_set)
  then have "docOf docs = docOf docs'" by (simp add: docOf_def fun_eq_iff)
  moreover have "sort (map fst docs) = sort (map fst docs')"
    using ms by (metis mset_sort properties_for_sort sorted_sort)
  moreover have "loadRules lib docs m n ids l rs bad = loadRules lib docs' m n ids l rs bad"
    if "docOf docs = docOf docs'" for n ids l rs bad
    by (induction ids arbitrary: l rs bad) (simp_all add: that split: sum.split option.split prod.split)
  ultimately show ?thesis unfolding buildRuleSet_def by simp
qed

lemma example_docs_sorted:
  "sort [''a'', ''d'', ''k''] = [''a'', ''d'', ''k'']" "sort [''k'', ''a'', ''d''] = [''a'', ''d'', ''k'']"
  by code_simp+

theorem rule_set_order_independent_witness:
  "buildRuleSet exampleRuleLib [(''a'', ''?''), (''d'', ''drop''), (''k'', ''keep'')] 1 5 0
   = buildRuleSet exampleRuleLib [(''k'', ''keep''), (''a'', ''?''), (''d'', ''drop'')] 1 5 0"
  by (rule rule_set_order_independent) simp_all

lemma length_goodRules:
  "length (goodRules lib docs ids) = length (filter (\<lambda>i. \<exists>p. compile lib (docOf docs i) i = Inr (Some p)) ids)"
  by (induction ids) (auto split: sum.splits option.splits)

text \<open>
  C34. The cap holds and costs nothing below it: the number of rules loaded is the number of
  documents that compile to an enabled rule, cut off at \<^verbatim>\<open>max_rules\<close> unless that is negative, and
  the rules of each signal come from loaded documents that name the signal.
\<close>

theorem max_rules_respected:
  "rsTotal (fst (buildRuleSet lib docs version m now))
     = (let n = int (length (filter (\<lambda>d. \<exists>p. compile lib (docOf docs (fst d)) (fst d) = Inr (Some p)) docs))
        in if m < 0 then n else min m n)
   \<and> set (rulesFor (fst (buildRuleSet lib docs version m now)) s) = {cr. \<exists>ss. (cr, ss) \<in> set (loadedRules lib docs m) \<and> s \<in> set ss}"
proof
  let ?P = "\<lambda>i. \<exists>p. compile lib (docOf docs i) i = Inr (Some p)"
  have "length (filter ?P (sort (map fst docs))) = length (filter (\<lambda>d. ?P (fst d)) docs)"
    by (simp add: filter_sort filter_map comp_def)
  then show "rsTotal (fst (buildRuleSet lib docs version m now))
     = (let n = int (length (filter (\<lambda>d. \<exists>p. compile lib (docOf docs (fst d)) (fst d) = Inr (Some p)) docs))
        in if m < 0 then n else min m n)"
    by (auto simp: buildRuleSet_sel loadedRules_def capped_def length_goodRules Let_def min_def)
  show "set (rulesFor (fst (buildRuleSet lib docs version m now)) s) = {cr. \<exists>ss. (cr, ss) \<in> set (loadedRules lib docs m) \<and> s \<in> set ss}"
  proof (cases "s \<in> {signalTraces, signalMetrics, signalLogs}")
    case True
    then show ?thesis by (auto simp: buildRuleSet_rules[OF True] sortKeepFirst_set signalRules_set)
  next
    case False
    then show ?thesis using loadedRules_signals[of _ _ lib docs m] by (auto simp: rulesFor_def)
  qed
qed

text \<open>
  C33. A document that does not compile disturbs no other: with it the hash gives the same rules
  for every signal, in the same order, and the same count of loaded rules.
\<close>

lemma map_filter_insort: "f x = None \<Longrightarrow> List.map_filter f (insort x xs) = List.map_filter f xs"
  by (induction xs) (auto simp: map_filter_simps split: option.split)

lemma goodRules_cong:
  "(\<And>i. i \<in> set ids \<Longrightarrow> docOf docs i = docOf docs' i) \<Longrightarrow> goodRules lib docs ids = goodRules lib docs' ids"
  by (induction ids) (auto split: sum.split option.split)

lemma goodRules_bad:
  assumes "compile lib raw i = Inl err" "i \<notin> fst ` set docs"
  shows "goodRules lib (docs @ [(i, raw)]) (sort (map fst (docs @ [(i, raw)]))) = goodRules lib docs (sort (map fst docs))"
proof -
  have map: "map_of (docs @ [(i, raw)]) i = Some raw"
    using assms(2) by (simp add: map_add_def map_of_eq_None_iff[THEN iffD2] split: option.split)
  have "sort (map fst (docs @ [(i, raw)])) = insort i (sort (map fst docs))"
    by (rule properties_for_sort) (simp_all add: sorted_insort)
  then have "goodRules lib (docs @ [(i, raw)]) (sort (map fst (docs @ [(i, raw)])))
      = goodRules lib (docs @ [(i, raw)]) (sort (map fst docs))"
    using assms(1) map by (simp add: goodRules_def map_filter_insort docOf_def)
  also have "\<dots> = goodRules lib docs (sort (map fst docs))"
    using assms(2) by (intro goodRules_cong) (auto simp: docOf_def map_add_def split: option.split)
  finally show ?thesis .
qed

theorem bad_document_isolated:
  assumes "compile lib raw i = Inl err" "i \<notin> fst ` set docs"
  shows "rulesFor (fst (buildRuleSet lib (docs @ [(i, raw)]) version m now)) s = rulesFor (fst (buildRuleSet lib docs version m now)) s
    \<and> rsTotal (fst (buildRuleSet lib (docs @ [(i, raw)]) version m now)) = rsTotal (fst (buildRuleSet lib docs version m now))"
  using goodRules_bad[OF assms] by (simp add: rulesFor_def buildRuleSet_sel loadedRules_def)

theorem bad_document_isolated_witness:
  "rsTotal (fst (buildRuleSet exampleRuleLib ([(''d'', ''drop''), (''k'', ''keep'')] @ [(''a'', ''?'')]) 1 (- 1) 0))
   = rsTotal (fst (buildRuleSet exampleRuleLib [(''d'', ''drop''), (''k'', ''keep'')] 1 (- 1) 0))"
  using bad_document_isolated[OF example_compile(3), of "''a''" "[(''d'', ''drop''), (''k'', ''keep'')]" 1 "- 1" 0] by simp

text \<open>
  The count of ignored documents is too high once the cap is reached: of three documents,
  one malformed and one beyond a cap of one, three are reported as invalid although one of the
  three is loaded.
\<close>

theorem invalid_overcounts:
  "rsTotal (fst (buildRuleSet exampleRuleLib [(''a'', ''?''), (''d'', ''drop''), (''k'', ''keep'')] 1 1 0)) = 1
   \<and> rsInvalid (fst (buildRuleSet exampleRuleLib [(''a'', ''?''), (''d'', ''drop''), (''k'', ''keep'')] 1 1 0)) = 3"
  by (simp add: buildRuleSet_def example_docs_sorted docOf_def example_compile emptyRuleSet_def addRules_lists Let_def del: rule_consts)

section \<open>Well-formed rules\<close>

definition rule_wf :: "'re compiledRule \<Rightarrow> bool" where
  "rule_wf r \<longleftrightarrow> crAction r \<in> {actionDrop, actionKeep} \<and> crConds r \<noteq> []
    \<and> (\<forall>c \<in> set (crConds r).
         ccSource c \<in> {sourceResource, sourceAttribute, sourceName, sourceBody, sourceSeverity, sourceScope}
       \<and> (ccSource c \<in> {sourceResource, sourceAttribute} \<longrightarrow> ccKey c \<noteq> '''')
       \<and> ccOp c \<in> {opExists, opNotExists, opEquals, opNotEquals, opContains, opPrefix, opSuffix, opRegex}
       \<and> (ccOp c = opRegex \<longrightarrow> ccRe c \<noteq> None))"

lemma compile_wf:
  assumes "compile lib raw i = Inr (Some (cr, ss))" shows "rule_wf cr"
proof (rule compile_Some[OF assms])
  fix r assume r: "crAction cr \<in> {actionDrop, actionKeep}" "Conditions r \<noteq> []"
    "compileConditions lib 0 (Conditions r) = Inr (crConds cr)"
  note all = compileConditions_all2[OF r(3)]
  have "crConds cr \<noteq> []" using all r(2) by auto
  moreover have "\<forall>c \<in> set (crConds cr). \<exists>c'. compileCondition lib c' = Inr c"
    using all by (induction rule: list_all2_induct) auto
  moreover have "ccSource c \<in> {sourceResource, sourceAttribute, sourceName, sourceBody, sourceSeverity, sourceScope}
       \<and> (ccSource c \<in> {sourceResource, sourceAttribute} \<longrightarrow> ccKey c \<noteq> [])
       \<and> ccOp c \<in> {opExists, opNotExists, opEquals, opNotEquals, opContains, opPrefix, opSuffix, opRegex}
       \<and> (ccOp c = opRegex \<longrightarrow> ccRe c \<noteq> None)" if "compileCondition lib c' = Inr c" for c c'
    using compileCondition_ops[OF that] compileCondition_sel(6)[OF that] by blast
  ultimately show "rule_wf cr" unfolding rule_wf_def using r(1) by blast
qed

lemma built_rule_wf:
  assumes "r \<in> set (rulesFor (fst (buildRuleSet lib docs version m now)) s)"
  shows "rule_wf r"
proof -
  obtain ss where "(r, ss) \<in> set (loadedRules lib docs m)"
    using assms by (auto simp: rulesFor_def buildRuleSet_sel sortKeepFirst_set signalRules_set split: if_splits)
  then show ?thesis by (rule loadedRules_compiled) (rule compile_wf)
qed

text \<open>
  C35. Every rule of a rule set is well formed: it drops or keeps, it has a condition, its
  conditions have a known source and operator and a key where one is needed, and a regular
  expression is never called through a nil pointer.
\<close>

theorem loaded_rules_wellformed:
  assumes "r \<in> set (rulesFor (fst (buildRuleSet lib docs version m now)) s)"
  shows "rule_wf r"
  using assms by (rule built_rule_wf)

lemma example_rules:
  "rulesFor (fst (buildRuleSet exampleRuleLib [(''d'', ''drop''), (''k'', ''keep'')] v (- 1) now)) s
   = (if s \<in> {''traces'', ''metrics'', ''logs''} then [exampleKeepRule, exampleDropRule] else [])"
proof -
  have "sort [''d'', ''k''] = [''d'', ''k'']" by code_simp
  then have "loadedRules exampleRuleLib [(''d'', ''drop''), (''k'', ''keep'')] (- 1)
      = [(exampleDropRule, [''traces'', ''metrics'', ''logs'']), (exampleKeepRule, [''traces'', ''metrics'', ''logs''])]"
    by (simp add: loadedRules_def capped_def docOf_def example_compile)
  then show ?thesis
    by (simp add: rulesFor_def buildRuleSet_sel sortKeepFirst_split)
      (simp add: isKeep_def exampleKeepRule_def exampleDropRule_def)
qed

theorem loaded_rules_wellformed_witness:
  "rule_wf exampleDropRule \<and> exampleDropRule \<in> set (rulesFor (fst (buildRuleSet exampleRuleLib [(''d'', ''drop''), (''k'', ''keep'')] 1 (- 1) 0)) ''logs'')"
proof -
  have "exampleDropRule \<in> set (rulesFor (fst (buildRuleSet exampleRuleLib [(''d'', ''drop''), (''k'', ''keep'')] 1 (- 1) 0)) ''logs'')"
    by (simp add: example_rules)
  then show ?thesis using loaded_rules_wellformed by blast
qed

end
