(* ===== verification/Sf_Config.thy ===== *)
theory Sf_Config
  imports Prelude
begin

text \<open>
  The stateful filter's configuration (\<^verbatim>\<open>config.go\<close> of \<^verbatim>\<open>statefulfilterprocessor\<close>): the records, the
  validation with one error per return, and the defaults. Shown: a validated configuration with
  the defaults applied has what the rule store relies on.
\<close>

record sfRedisConfig =
  sfAddr :: string
  sfAddrs :: "string list"
  sfMasterName :: string
  sfPassword :: string
  sfDB :: int
  sfKeyPrefix :: string
  sfTimeout :: duration
  sfTLS :: "tls_client_config option"

record sfConfig =
  sfRedis :: "sfRedisConfig option"
  RefreshInterval :: duration
  FullResyncEvery :: int
  WaitForInitialLoad :: bool
  InitialLoadTimeout :: duration
  MaxRules :: int
  FailClosedOnEmpty :: bool

datatype sf_cfg_error =
    RedisMissing | RedisAddrMissing | SentinelAddrsMissing | RefreshIntervalNegative duration
  | RedisTimeoutNegative duration | InitialLoadTimeoutNegative duration | FullResyncNegative int

definition defaultKeyPrefix :: string where "defaultKeyPrefix = ''otelcol:filter''"
definition defaultRefreshInterval :: duration where "defaultRefreshInterval = 10 * Second"
definition defaultFullResyncEvery :: int where "defaultFullResyncEvery = 6"
definition defaultInitialLoadTimeout :: duration where "defaultInitialLoadTimeout = 5 * Second"
definition defaultRedisTimeout :: duration where "defaultRedisTimeout = 2 * Second"
definition defaultMaxRules :: int where "defaultMaxRules = 500"

lemmas sf_defaults = defaultKeyPrefix_def defaultRefreshInterval_def defaultFullResyncEvery_def
  defaultInitialLoadTimeout_def defaultRedisTimeout_def defaultMaxRules_def

definition sfCreateDefaultConfig :: sfConfig where
  "sfCreateDefaultConfig =
     \<lparr>sfRedis = None, RefreshInterval = defaultRefreshInterval, FullResyncEvery = defaultFullResyncEvery,
      WaitForInitialLoad = True, InitialLoadTimeout = defaultInitialLoadTimeout, MaxRules = defaultMaxRules,
      FailClosedOnEmpty = False\<rparr>"

definition sfValidate :: "sfConfig \<Rightarrow> sf_cfg_error option" where
  "sfValidate cfg =
     (case sfRedis cfg of
        None \<Rightarrow> Some RedisMissing
      | Some r \<Rightarrow>
          if sfAddr r = '''' \<and> length (sfAddrs r) = 0 then Some RedisAddrMissing
          else if sfMasterName r \<noteq> '''' \<and> length (sfAddrs r) = 0 then Some SentinelAddrsMissing
          else if RefreshInterval cfg < 0 then Some (RefreshIntervalNegative (RefreshInterval cfg))
          else if sfTimeout r < 0 then Some (RedisTimeoutNegative (sfTimeout r))
          else if InitialLoadTimeout cfg < 0 then Some (InitialLoadTimeoutNegative (InitialLoadTimeout cfg))
          else if FullResyncEvery cfg < 0 then Some (FullResyncNegative (FullResyncEvery cfg))
          else None)"

definition sfRedisDefaults :: "sfRedisConfig \<Rightarrow> sfRedisConfig" where
  "sfRedisDefaults r =
     (let r1 = (if sfKeyPrefix r = '''' then r\<lparr>sfKeyPrefix := defaultKeyPrefix\<rparr> else r)
      in if sfTimeout r1 = 0 then r1\<lparr>sfTimeout := defaultRedisTimeout\<rparr> else r1)"

definition applyDefaults :: "sfConfig \<Rightarrow> sfConfig" where
  "applyDefaults cfg =
     (let c1 = (if RefreshInterval cfg = 0 then cfg\<lparr>RefreshInterval := defaultRefreshInterval\<rparr> else cfg);
          c2 = (if FullResyncEvery c1 = 0 then c1\<lparr>FullResyncEvery := defaultFullResyncEvery\<rparr> else c1);
          c3 = (if InitialLoadTimeout c2 = 0 then c2\<lparr>InitialLoadTimeout := defaultInitialLoadTimeout\<rparr> else c2);
          c4 = (if MaxRules c3 = 0 then c3\<lparr>MaxRules := defaultMaxRules\<rparr> else c3)
      in case sfRedis c4 of None \<Rightarrow> c4 | Some r \<Rightarrow> c4\<lparr>sfRedis := Some (sfRedisDefaults r)\<rparr>)"

text \<open>What the store and its loop need: a Redis, positive periods and a full resync period.\<close>

definition sf_ready :: "sfConfig \<Rightarrow> bool" where
  "sf_ready cfg \<longleftrightarrow> (\<exists>r. sfRedis cfg = Some r \<and> sfKeyPrefix r \<noteq> '''' \<and> 0 < sfTimeout r
      \<and> (sfAddr r \<noteq> '''' \<or> sfAddrs r \<noteq> []))
    \<and> 0 < RefreshInterval cfg \<and> 1 \<le> FullResyncEvery cfg \<and> 0 < InitialLoadTimeout cfg \<and> MaxRules cfg \<noteq> 0"

lemma applyDefaults_sel [simp]:
  "RefreshInterval (applyDefaults cfg) = (if RefreshInterval cfg = 0 then defaultRefreshInterval else RefreshInterval cfg)"
  "FullResyncEvery (applyDefaults cfg) = (if FullResyncEvery cfg = 0 then defaultFullResyncEvery else FullResyncEvery cfg)"
  "InitialLoadTimeout (applyDefaults cfg)
    = (if InitialLoadTimeout cfg = 0 then defaultInitialLoadTimeout else InitialLoadTimeout cfg)"
  "MaxRules (applyDefaults cfg) = (if MaxRules cfg = 0 then defaultMaxRules else MaxRules cfg)"
  "sfRedis (applyDefaults cfg) = map_option sfRedisDefaults (sfRedis cfg)"
  "WaitForInitialLoad (applyDefaults cfg) = WaitForInitialLoad cfg"
  "FailClosedOnEmpty (applyDefaults cfg) = FailClosedOnEmpty cfg"
  by (simp_all add: applyDefaults_def Let_def split: option.split)

lemma sfRedisDefaults_sel [simp]:
  "sfKeyPrefix (sfRedisDefaults r) = (if sfKeyPrefix r = '''' then defaultKeyPrefix else sfKeyPrefix r)"
  "sfTimeout (sfRedisDefaults r) = (if sfTimeout r = 0 then defaultRedisTimeout else sfTimeout r)"
  "sfAddr (sfRedisDefaults r) = sfAddr r" "sfAddrs (sfRedisDefaults r) = sfAddrs r"
  "sfMasterName (sfRedisDefaults r) = sfMasterName r" "sfPassword (sfRedisDefaults r) = sfPassword r"
  "sfDB (sfRedisDefaults r) = sfDB r" "sfTLS (sfRedisDefaults r) = sfTLS r"
  by (simp_all add: sfRedisDefaults_def Let_def)

lemma applyDefaults_ready:
  assumes "sfValidate cfg = None" shows "sf_ready (applyDefaults cfg)" "sfValidate (applyDefaults cfg) = None"
  using assms by (auto simp: sf_ready_def sfValidate_def sf_defaults Second_def split: option.splits if_splits)

lemma applyDefaults_idem: "applyDefaults (applyDefaults cfg) = applyDefaults cfg"
proof -
  have [simp]: "sfRedisDefaults (sfRedisDefaults r) = sfRedisDefaults r" for r
    by (rule sfRedisConfig.equality) (simp_all add: sf_defaults Second_def)
  then show ?thesis
    by (intro sfConfig.equality) (simp_all add: sf_defaults Second_def option.map_comp comp_def cong: option.map_cong)
qed

text \<open>
  A configuration that passes validation and has its defaults filled in is all the rule store
  relies on: a Redis address and key prefix, positive timeouts and periods, a full resync and a
  rule cap; it still passes validation, and filling in again changes nothing. What was set
  explicitly is kept.
\<close>

theorem filter_config_ready:
  assumes "sfValidate cfg = None"
  shows "sf_ready (applyDefaults cfg) \<and> sfValidate (applyDefaults cfg) = None \<and> applyDefaults (applyDefaults cfg) = applyDefaults cfg
    \<and> (RefreshInterval cfg \<noteq> 0 \<longrightarrow> RefreshInterval (applyDefaults cfg) = RefreshInterval cfg)
    \<and> (FullResyncEvery cfg \<noteq> 0 \<longrightarrow> FullResyncEvery (applyDefaults cfg) = FullResyncEvery cfg)
    \<and> (MaxRules cfg \<noteq> 0 \<longrightarrow> MaxRules (applyDefaults cfg) = MaxRules cfg)"
  using applyDefaults_ready[OF assms] by (simp add: applyDefaults_idem)

theorem filter_config_ready_witness:
  "sf_ready (applyDefaults (sfCreateDefaultConfig\<lparr>sfRedis := Some \<lparr>sfAddr = ''redis:6379'', sfAddrs = [], sfMasterName = [],
     sfPassword = [], sfDB = 0, sfKeyPrefix = [], sfTimeout = 0, sfTLS = None\<rparr>, MaxRules := - 1\<rparr>))"
  by (rule filter_config_ready[THEN conjunct1]) (simp add: sfValidate_def sfCreateDefaultConfig_def sf_defaults Second_def)

end
