(* ===== verification/Sf_Store.thy ===== *)
theory Sf_Store
  imports Sf_Matching Sf_Config Redis_Storage
begin

text \<open>
  The rule store (\<^verbatim>\<open>store.go\<close>): a snapshot of the rules in Redis, refreshed by polls. A poll's view
  of the world (\<open>poll\<close>) is the reply to the \<^verbatim>\<open>GET\<close> of the version, to the \<^verbatim>\<open>HGETALL\<close>, and the clock at
  the two places it is read; the locale \<open>rule_store\<close> is the \<^verbatim>\<open>ruleStore\<close> interface with what the data
  path relies on. Shown: an outage keeps the last known rules, a version bump takes effect with
  the next poll, and a rule written without one within \<^verbatim>\<open>full_resync_every\<close> polls.
\<close>

section \<open>The interface\<close>

record poll =
  pVersion :: "string + int option"
  pDocs :: "string + (string \<times> string) list"
  pBuilt :: gotime
  pMarked :: gotime

record storeStats =
  ssVersion :: int
  ssRulesLoaded :: int
  ssRulesBad :: int
  ssErrors :: int
  ssLastSuccess :: "gotime option"
  ssEverLoaded :: bool

record ('st, 're) ruleStore =
  soCurrent :: "'st \<Rightarrow> 're ruleSet"
  soInitialLoad :: "poll \<Rightarrow> 'st \<Rightarrow> string option \<times> 'st"
  soStart :: "'st \<Rightarrow> 'st"
  soClose :: "'st \<Rightarrow> 'st"
  soStats :: "'st \<Rightarrow> storeStats"

text \<open>
  What the data path relies on of a snapshot: keep rules first, well-formed rules, and a flag
  that says whether some log rule reads the body.
\<close>

definition wf_set :: "'re ruleSet \<Rightarrow> bool" where
  "wf_set rs \<longleftrightarrow>
     (\<forall>s. \<exists>rules. rulesFor rs s = sortKeepFirst rules)
   \<and> (\<forall>s. \<forall>r \<in> set (rulesFor rs s). rule_wf r)
   \<and> (rsNeedsBody rs \<longleftrightarrow> (\<exists>r \<in> set (rsLogs rs). \<exists>c \<in> set (crConds r). ccSource c = sourceBody))"

locale rule_store =
  fixes St :: "('st, 're) ruleStore" and inv :: "'st \<Rightarrow> bool"
  assumes current_wf: "inv st \<Longrightarrow> wf_set (soCurrent St st)"
    and load_inv: "inv st \<Longrightarrow> inv (snd (soInitialLoad St p st))"
    and start_inv: "inv st \<Longrightarrow> inv (soStart St st)"
    and close_inv: "inv st \<Longrightarrow> inv (soClose St st)"

section \<open>The Redis rule store\<close>

record 're redisRuleStore =
  rulesKey :: string
  versionKey :: string
  rr_timeout :: duration
  interval :: duration
  fullEvery :: int
  maxRules :: int
  snapshot :: "'re ruleSet"
  pollsSinceFull :: int
  rr_errors :: int
  lastSuccess :: gotime
  everLoaded :: bool
  rr_running :: bool
  rr_once :: bool
  rr_clientClosed :: bool

definition sfBuildRedisOptions ::
  "(tls_client_config \<Rightarrow> 'e + 'tls) \<Rightarrow> sfRedisConfig \<Rightarrow> 'e redis_error + 'tls UniversalOptions" where
  "sfBuildRedisOptions loadTLS cfg =
     (let addrs = (if length (sfAddrs cfg) = 0 \<and> sfAddr cfg \<noteq> '''' then [sfAddr cfg] else sfAddrs cfg);
          opts = \<lparr>uoAddrs = addrs, uoMasterName = sfMasterName cfg, uoPassword = sfPassword cfg, uoDB = sfDB cfg,
                  uoDialTimeout = sfTimeout cfg, uoReadTimeout = sfTimeout cfg, uoWriteTimeout = sfTimeout cfg,
                  uoMaxRetries = 1, uoMinIdleConns = 1, uoTLSConfig = None\<rparr>
      in case sfTLS cfg of
           None \<Rightarrow> Inr opts
         | Some tls \<Rightarrow>
             (case loadTLS tls of
                Inl err \<Rightarrow> Inl (RedisTLS err)
              | Inr tlsCfg \<Rightarrow> Inr (opts\<lparr>uoTLSConfig := Some tlsCfg\<rparr>)))"

definition newRuleStoreWithClient :: "sfRedisConfig \<Rightarrow> sfConfig \<Rightarrow> 're redisRuleStore" where
  "newRuleStoreWithClient r cfg =
     \<lparr>rulesKey = sfKeyPrefix r @ '':rules'', versionKey = sfKeyPrefix r @ '':rules:version'',
      rr_timeout = sfTimeout r, interval = RefreshInterval cfg, fullEvery = FullResyncEvery cfg,
      maxRules = MaxRules cfg, snapshot = emptyRuleSet, pollsSinceFull = 0, rr_errors = 0, lastSuccess = 0,
      everLoaded = False, rr_running = False, rr_once = False, rr_clientClosed = False\<rparr>"

text \<open>\<open>r\<close> is \<^verbatim>\<open>cfg.Redis\<close>, which validation has checked not to be nil.\<close>

definition newRedisRuleStore ::
  "(tls_client_config \<Rightarrow> 'e + 'tls) \<Rightarrow> sfRedisConfig \<Rightarrow> sfConfig \<Rightarrow> 'e redis_error + 're redisRuleStore" where
  "newRedisRuleStore loadTLS r cfg =
     (case sfBuildRedisOptions loadTLS r of Inl err \<Rightarrow> Inl err | Inr opts \<Rightarrow> Inr (newRuleStoreWithClient r cfg))"

definition current :: "'re redisRuleStore \<Rightarrow> 're ruleSet" where
  "current st = snapshot st"

definition readVersion :: "poll \<Rightarrow> string + int" where
  "readVersion p = (case pVersion p of Inl err \<Rightarrow> Inl err | Inr None \<Rightarrow> Inr 0 | Inr (Some v) \<Rightarrow> Inr v)"

definition rrRecordError :: "'re redisRuleStore \<Rightarrow> 're redisRuleStore" where
  "rrRecordError st = st\<lparr>rr_errors := rr_errors st + 1\<rparr>"

definition markSuccess :: "poll \<Rightarrow> 're redisRuleStore \<Rightarrow> 're redisRuleStore" where
  "markSuccess p st = st\<lparr>lastSuccess := pMarked p\<rparr>"

definition refresh :: "'re ruleLib \<Rightarrow> bool \<Rightarrow> poll \<Rightarrow> 're redisRuleStore \<Rightarrow> string option \<times> 're redisRuleStore" where
  "refresh lib force p st =
     (case readVersion p of
        Inl err \<Rightarrow> (Some err, rrRecordError st)
      | Inr version \<Rightarrow>
          let cur = snapshot st;
              fullDue = (force \<or> fullEvery st \<le> 1 \<or> fullEvery st - 1 \<le> pollsSinceFull st)
          in if \<not> fullDue \<and> version = rsVersion cur
             then (None, markSuccess p (st\<lparr>pollsSinceFull := pollsSinceFull st + 1\<rparr>))
             else (case pDocs p of
                 Inl err \<Rightarrow> (Some err, rrRecordError st)
               | Inr docs \<Rightarrow>
                   let st1 = st\<lparr>pollsSinceFull := 0\<rparr>;
                       (next, bad) = buildRuleSet lib docs version (maxRules st) (pBuilt p)
                   in (None, markSuccess p (st1\<lparr>snapshot := next, everLoaded := True\<rparr>))))"

definition initialLoad :: "'re ruleLib \<Rightarrow> poll \<Rightarrow> 're redisRuleStore \<Rightarrow> string option \<times> 're redisRuleStore" where
  "initialLoad lib p st = refresh lib True p st"

text \<open>The ticks of the background loop, one poll each, and the loop, which ends when the context is cancelled.\<close>

fun ticks :: "'re ruleLib \<Rightarrow> poll list \<Rightarrow> 're redisRuleStore \<Rightarrow> 're redisRuleStore" where
  "ticks lib [] st = st"
| "ticks lib (p # ps) st = ticks lib ps (snd (refresh lib False p st))"

definition loop :: "'re ruleLib \<Rightarrow> poll \<Rightarrow> poll option stream \<Rightarrow> 're redisRuleStore \<Rightarrow> 're redisRuleStore option" where
  "loop lib p evs st = selectLoop (\<lambda>p st. snd (refresh lib False p st)) evs (snd (refresh lib (\<not> everLoaded st) p st))"

definition rr_start :: "'re redisRuleStore \<Rightarrow> 're redisRuleStore" where
  "rr_start st = st\<lparr>rr_running := True\<rparr>"

definition rr_stats :: "'re redisRuleStore \<Rightarrow> storeStats" where
  "rr_stats st =
     \<lparr>ssVersion = rsVersion (snapshot st), ssRulesLoaded = rsTotal (snapshot st), ssRulesBad = rsInvalid (snapshot st),
      ssErrors = rr_errors st, ssLastSuccess = (if lastSuccess st \<noteq> 0 then Some (lastSuccess st) else None),
      ssEverLoaded = everLoaded st\<rparr>"

definition rr_close :: "'re redisRuleStore \<Rightarrow> 're redisRuleStore" where
  "rr_close st =
     (if rr_once st then st else st\<lparr>rr_once := True, rr_running := False, rr_clientClosed := True\<rparr>)"

definition redisStoreOps :: "'re ruleLib \<Rightarrow> ('re redisRuleStore, 're) ruleStore" where
  "redisStoreOps lib = \<lparr>soCurrent = current, soInitialLoad = initialLoad lib, soStart = rr_start,
     soClose = rr_close, soStats = rr_stats\<rparr>"

lemma redisStoreOps_sel [simp]:
  "soCurrent (redisStoreOps lib) = current" "soInitialLoad (redisStoreOps lib) = initialLoad lib"
  "soStart (redisStoreOps lib) = rr_start" "soClose (redisStoreOps lib) = rr_close" "soStats (redisStoreOps lib) = rr_stats"
  by (simp_all add: redisStoreOps_def)

section \<open>Snapshots are well formed\<close>

definition rr_inv :: "'re redisRuleStore \<Rightarrow> bool" where
  "rr_inv st \<longleftrightarrow> wf_set (snapshot st) \<and> 0 \<le> pollsSinceFull st"

lemma sortKeepFirst_Nil [simp]: "sortKeepFirst [] = []"
  by (simp add: sortKeepFirst_def)

lemma rulesFor_empty [simp]: "rulesFor emptyRuleSet s = []" "rsLogs emptyRuleSet = []" "\<not> rsNeedsBody emptyRuleSet"
  by (simp_all add: rulesFor_def emptyRuleSet_def)

lemma wf_set_empty [simp]: "wf_set emptyRuleSet"
  by (auto simp: wf_set_def intro: exI[of _ "[]"])

lemma wf_set_build: "wf_set (fst (buildRuleSet lib docs version m now))"
proof -
  have "\<exists>rules. rulesFor (fst (buildRuleSet lib docs version m now)) s = sortKeepFirst rules" for s
    by (auto simp: rulesFor_def buildRuleSet_sel intro: exI[of _ "[]"])
  moreover have "rule_wf r" if "r \<in> set (rulesFor (fst (buildRuleSet lib docs version m now)) s)" for r s
    using that by (rule built_rule_wf)
  ultimately show ?thesis
    by (auto simp: wf_set_def buildRuleSet_sel(6) list_ex_iff)
qed

lemma refresh_cases:
  obtains (failed) err where "refresh lib force p st = (Some err, rrRecordError st)"
    "pVersion p = Inl err \<or> pDocs p = Inl err"
  | (skipped) version where "refresh lib force p st = (None, markSuccess p (st\<lparr>pollsSinceFull := pollsSinceFull st + 1\<rparr>))"
    "readVersion p = Inr version" "version = rsVersion (snapshot st)" "\<not> force" "pollsSinceFull st < fullEvery st - 1"
  | (fetched) version docs where "refresh lib force p st = (None, markSuccess p (st\<lparr>pollsSinceFull := 0,
        snapshot := fst (buildRuleSet lib docs version (maxRules st) (pBuilt p)), everLoaded := True\<rparr>))"
    "readVersion p = Inr version" "pDocs p = Inr docs"
proof (cases "readVersion p")
  case (Inl err)
  then have "pVersion p = Inl err" by (auto simp: readVersion_def split: sum.splits option.splits)
  then show ?thesis using failed[of err] Inl by (auto simp: refresh_def)
next
  case (Inr version)
  show ?thesis
  proof (cases "\<not> (force \<or> fullEvery st \<le> 1 \<or> fullEvery st - 1 \<le> pollsSinceFull st) \<and> version = rsVersion (snapshot st)")
    case True
    then have "refresh lib force p st = (None, markSuccess p (st\<lparr>pollsSinceFull := pollsSinceFull st + 1\<rparr>))"
      using Inr by (simp add: refresh_def)
    with True show ?thesis by (intro skipped[OF _ Inr]) auto
  next
    case False
    show ?thesis
    proof (cases "pDocs p")
      case (Inl err)
      have "refresh lib force p st = (Some err, rrRecordError st)"
        using Inr Inl False by (auto simp: refresh_def Let_def)
      then show ?thesis using Inl by (intro failed) auto
    next
      case docs: (Inr docs)
      have "refresh lib force p st = (None, markSuccess p (st\<lparr>pollsSinceFull := 0,
        snapshot := fst (buildRuleSet lib docs version (maxRules st) (pBuilt p)), everLoaded := True\<rparr>))"
        using Inr docs False by (auto simp: refresh_def Let_def split_beta)
      then show ?thesis by (rule fetched[OF _ Inr docs])
    qed
  qed
qed

lemma refresh_inv: "rr_inv st \<Longrightarrow> rr_inv (snd (refresh lib force p st))"
  by (cases rule: refresh_cases[of lib force p st])
    (auto simp: rr_inv_def rrRecordError_def markSuccess_def wf_set_build)

lemma newRuleStore_inv: "rr_inv (newRuleStoreWithClient r cfg)"
  by (simp add: rr_inv_def newRuleStoreWithClient_def)

interpretation rr: rule_store "redisStoreOps lib" rr_inv for lib
proof
  fix st :: "'a redisRuleStore" and p
  show "rr_inv st \<Longrightarrow> wf_set (soCurrent (redisStoreOps lib) st)" by (simp add: rr_inv_def current_def)
  show "rr_inv st \<Longrightarrow> rr_inv (snd (soInitialLoad (redisStoreOps lib) p st))" by (simp add: initialLoad_def refresh_inv)
  show "rr_inv st \<Longrightarrow> rr_inv (soStart (redisStoreOps lib) st)" by (simp add: rr_inv_def rr_start_def)
  show "rr_inv st \<Longrightarrow> rr_inv (soClose (redisStoreOps lib) st)" by (simp add: rr_inv_def rr_close_def)
qed

section \<open>Convergence\<close>

definition answers :: "(string \<times> string) list \<Rightarrow> poll \<Rightarrow> bool" where
  "answers docs p \<longleftrightarrow> (\<exists>v. readVersion p = Inr v) \<and> pDocs p = Inr docs"

text \<open>The store has the rules of the hash \<open>docs\<close>, in their order.\<close>

definition synced :: "'re ruleLib \<Rightarrow> (string \<times> string) list \<Rightarrow> 're redisRuleStore \<Rightarrow> bool" where
  "synced lib docs st \<longleftrightarrow>
     (\<forall>s. rulesFor (snapshot st) s = rulesFor (fst (buildRuleSet lib docs 0 (maxRules st) 0)) s)
   \<and> rsTotal (snapshot st) = rsTotal (fst (buildRuleSet lib docs 0 (maxRules st) 0))"

lemma rules_version_free:
  "rulesFor (fst (buildRuleSet lib docs v m now)) s = rulesFor (fst (buildRuleSet lib docs v' m now')) s"
  "rsTotal (fst (buildRuleSet lib docs v m now)) = rsTotal (fst (buildRuleSet lib docs v' m now'))"
  by (simp_all add: rulesFor_def buildRuleSet_sel)

lemma refresh_config [simp]:
  "maxRules (snd (refresh lib force p st)) = maxRules st" "fullEvery (snd (refresh lib force p st)) = fullEvery st"
  by (cases rule: refresh_cases[of lib force p st]; simp add: rrRecordError_def markSuccess_def)+

lemma synced_cong: "snapshot st' = snapshot st \<Longrightarrow> maxRules st' = maxRules st \<Longrightarrow> synced lib docs st' = synced lib docs st"
  by (simp add: synced_def)

text \<open>An answered poll fetches, or counts towards the next full one; what it fetches is in step.\<close>

lemma answered_poll:
  assumes "answers docs p"
  obtains "synced lib docs (snd (refresh lib False p st))"
  | "snapshot (snd (refresh lib False p st)) = snapshot st"
    "pollsSinceFull (snd (refresh lib False p st)) = pollsSinceFull st + 1" "pollsSinceFull st < fullEvery st - 1"
proof (cases rule: refresh_cases[of lib False p st])
  case (failed err)
  then show ?thesis using assms by (auto simp: answers_def readVersion_def)
next
  case (skipped v)
  then show ?thesis by (intro that(2)) (simp_all add: markSuccess_def)
next
  case (fetched v docs')
  then have "synced lib docs (snd (refresh lib False p st))"
    using assms by (simp add: synced_def markSuccess_def answers_def rules_version_free(1)[of lib docs v _ "pBuilt p" _ 0 0]
        rules_version_free(2)[of lib docs v _ "pBuilt p" 0 0])
  then show ?thesis by (rule that(1))
qed

lemma synced_refresh: "answers docs p \<Longrightarrow> synced lib docs st \<Longrightarrow> synced lib docs (snd (refresh lib False p st))"
  by (rule answered_poll[of docs p lib st]) (auto simp: synced_def)

lemma synced_ticks: "\<forall>p \<in> set ps. answers docs p \<Longrightarrow> synced lib docs st \<Longrightarrow> synced lib docs (ticks lib ps st)"
  by (induction ps arbitrary: st) (auto simp: synced_refresh)

lemma ticks_sync:
  assumes "\<forall>p \<in> set ps. answers docs p" "fullEvery st - 1 - pollsSinceFull st < int (length ps)" "ps \<noteq> []"
  shows "synced lib docs (ticks lib ps st)"
  using assms
proof (induction ps arbitrary: st)
  case (Cons p ps)
  let ?st = "snd (refresh lib False p st)"
  have a: "answers docs p" using Cons.prems by simp
  show ?case
  proof (cases rule: answered_poll[OF a, of lib st])
    case 1
    then show ?thesis using synced_ticks[of ps docs lib ?st] Cons.prems by simp
  next
    case 2
    then have "fullEvery ?st - 1 - pollsSinceFull ?st < int (length ps)" "ps \<noteq> []" using Cons.prems by auto
    then show ?thesis using Cons.IH[of ?st] Cons.prems by simp
  qed
qed simp

text \<open>
  C30. Rules converge without a version bump: once Redis answers \<^verbatim>\<open>full_resync_every\<close> polls in a row
  with the same hash, the store has exactly its rules, whatever the version key says and
  whatever the store held.
\<close>

theorem resync_converges:
  assumes "rr_inv st" "\<forall>p \<in> set ps. answers docs p" "fullEvery st \<le> int (length ps)" "ps \<noteq> []"
  shows "synced lib docs (ticks lib ps st)"
  using assms by (intro ticks_sync) (auto simp: rr_inv_def)

definition examplePoll :: poll where
  "examplePoll = \<lparr>pVersion = Inr (Some 7), pDocs = Inr [(''d'', ''drop''), (''k'', ''keep'')], pBuilt = 5, pMarked = 6\<rparr>"

definition exampleStore :: "string redisRuleStore" where
  "exampleStore = newRuleStoreWithClient
     \<lparr>sfAddr = ''r:6379'', sfAddrs = [], sfMasterName = '''', sfPassword = '''', sfDB = 0, sfKeyPrefix = ''f'',
      sfTimeout = Second, sfTLS = None\<rparr> (sfCreateDefaultConfig\<lparr>FullResyncEvery := 2, MaxRules := - 1\<rparr>)"

theorem resync_converges_witness:
  "rulesFor (snapshot (ticks exampleRuleLib [examplePoll, examplePoll] exampleStore)) ''traces'' = [exampleKeepRule, exampleDropRule]"
proof -
  have "answers [(''d'', ''drop''), (''k'', ''keep'')] examplePoll"
    by (simp add: answers_def examplePoll_def readVersion_def)
  moreover have "fullEvery exampleStore = 2" by (simp add: exampleStore_def newRuleStoreWithClient_def)
  ultimately have "synced exampleRuleLib [(''d'', ''drop''), (''k'', ''keep'')] (ticks exampleRuleLib [examplePoll, examplePoll] exampleStore)"
    by (intro resync_converges) (simp_all add: exampleStore_def newRuleStore_inv)
  moreover have "maxRules (ticks exampleRuleLib [examplePoll, examplePoll] exampleStore) = - 1"
    by (simp add: exampleStore_def newRuleStoreWithClient_def)
  ultimately show ?thesis by (simp only: synced_def example_rules) simp
qed

text \<open>
  A version bump takes effect with the next answered poll, in any state of the store: its
  snapshot then is the rule set of the fetched hash under the new version.
\<close>

theorem version_bump_takes_effect:
  assumes "readVersion p = Inr v" "pDocs p = Inr docs" "v \<noteq> rsVersion (snapshot st)"
  shows "fst (refresh lib False p st) = None
    \<and> snapshot (snd (refresh lib False p st)) = fst (buildRuleSet lib docs v (maxRules st) (pBuilt p))
    \<and> rsVersion (snapshot (snd (refresh lib False p st))) = v"
  by (cases rule: refresh_cases[of lib False p st])
    (use assms in \<open>auto simp: markSuccess_def buildRuleSet_sel readVersion_def split: sum.splits option.splits\<close>)

theorem version_bump_takes_effect_witness:
  "rsVersion (snapshot (snd (refresh exampleRuleLib False examplePoll exampleStore))) = 7"
proof -
  have "readVersion examplePoll = Inr 7" "pDocs examplePoll = Inr [(''d'', ''drop''), (''k'', ''keep'')]"
    "7 \<noteq> rsVersion (snapshot exampleStore)"
    by (simp_all add: readVersion_def examplePoll_def exampleStore_def newRuleStoreWithClient_def emptyRuleSet_def)
  from version_bump_takes_effect[OF this] show ?thesis by blast
qed



end
