(* ===== verification/Sf_Processor.thy ===== *)
theory Sf_Processor
  imports Sf_Store
begin

text \<open>
  The stateful filter processor (\<^verbatim>\<open>processor.go\<close> of \<^verbatim>\<open>statefulfilterprocessor\<close>): spans, log records
  and data points are matched against the current snapshot and removed when a drop rule claims
  them. \<open>sfEnv\<close> gathers what is outside the repository (the rule libraries, the store's operations,
  the order in which Go walks over a map). The properties hold for every store that keeps the
  contract \<open>rule_store\<close>.
\<close>

section \<open>State\<close>

definition sfDropLogInterval :: duration where "sfDropLogInterval = 30 * Second"

type_synonym sfThrottle = "gotime option"

definition dropLogAllow :: "gotime \<Rightarrow> sfThrottle \<Rightarrow> bool \<times> sfThrottle" where
  "dropLogAllow now d =
     (if (case d of None \<Rightarrow> False | Some l \<Rightarrow> timeSub now l < sfDropLogInterval) then (False, d)
      else (True, Some now))"

type_synonym dropTally = "(string \<times> int) list"

record 'st statefulFilterProcessor =
  fp_config :: sfConfig
  fp_store :: 'st
  fp_dropLog :: sfThrottle
  fp_gaugeReg :: bool
  fp_measurements :: "measurement list"
  fp_clock :: "gotime stream"

record ('st, 're) sfEnv =
  sfLib :: "'re ruleLib"
  sfOps :: "('st, 're) ruleStore"
  sfIter :: "dropTally \<Rightarrow> dropTally"

definition sf_env_ok :: "('st, 're) sfEnv \<Rightarrow> bool" where
  "sf_env_ok env \<longleftrightarrow> (\<forall>d. mset (sfIter env d) = mset d)"

datatype 'e sf_error = SfTelemetryFailed 'e | SfGaugesFailed 'e | InitialLoadFailed string

text \<open>\<open>tel\<close> and \<open>reg\<close> are the results of creating the instruments and of registering the callback.\<close>

definition newStatefulFilterProcessor ::
  "'e option \<Rightarrow> 'e option \<Rightarrow> bool \<Rightarrow> gotime stream \<Rightarrow> sfConfig \<Rightarrow> 'st \<Rightarrow> 'e sf_error + 'st statefulFilterProcessor" where
  "newStatefulFilterProcessor tel reg shared clk cfg st =
     (case tel of
        Some err \<Rightarrow> Inl (SfTelemetryFailed err)
      | None \<Rightarrow>
          (case reg of
             Some err \<Rightarrow> Inl (SfGaugesFailed err)
           | None \<Rightarrow> Inr \<lparr>fp_config = cfg, fp_store = st, fp_dropLog = None, fp_gaugeReg = \<not> shared,
                         fp_measurements = [], fp_clock = clk\<rparr>))"

text \<open>The gauge callback: rules loaded, invalid, version, refresh errors and age in seconds.\<close>

definition observeRuleGauges :: "gotime \<Rightarrow> storeStats \<Rightarrow> int \<times> int \<times> int \<times> int \<times> rat" where
  "observeRuleGauges now st =
     (ssRulesLoaded st, ssRulesBad st, ssVersion st, ssErrors st,
      case ssLastSuccess st of None \<Rightarrow> - 1 | Some t \<Rightarrow> Seconds (timeSub now t))"

definition sfStart ::
  "('st, 're) sfEnv \<Rightarrow> poll \<Rightarrow> 'st statefulFilterProcessor \<Rightarrow> 'e sf_error option \<times> 'st statefulFilterProcessor" where
  "sfStart env p fp =
     (let (err, st1) = (if WaitForInitialLoad (fp_config fp) then soInitialLoad (sfOps env) p (fp_store fp)
                        else (None, fp_store fp))
      in case err of
           Some e \<Rightarrow>
             if FailClosedOnEmpty (fp_config fp) then (Some (InitialLoadFailed e), fp\<lparr>fp_store := st1\<rparr>)
             else (None, fp\<lparr>fp_store := soStart (sfOps env) st1\<rparr>)
         | None \<Rightarrow> (None, fp\<lparr>fp_store := soStart (sfOps env) st1\<rparr>))"

definition sfShutdown :: "('st, 're) sfEnv \<Rightarrow> 'st statefulFilterProcessor \<Rightarrow> 'st statefulFilterProcessor" where
  "sfShutdown env fp = fp\<lparr>fp_gaugeReg := False, fp_store := soClose (sfOps env) (fp_store fp)\<rparr>"

section \<open>Reporting\<close>

definition sfAdd :: "string \<Rightarrow> int \<Rightarrow> (string \<times> string) list \<Rightarrow> 'st statefulFilterProcessor \<Rightarrow> 'st statefulFilterProcessor" where
  "sfAdd c n as fp = fp\<lparr>fp_measurements := fp_measurements fp @ [\<lparr>me_counter = c, me_value = n, me_attrs = as\<rparr>]\<rparr>"

definition sfNow :: "'st statefulFilterProcessor \<Rightarrow> gotime \<times> 'st statefulFilterProcessor" where
  "sfNow fp = (shd (fp_clock fp), fp\<lparr>fp_clock := stl (fp_clock fp)\<rparr>)"

definition report ::
  "('st, 're) sfEnv \<Rightarrow> string \<Rightarrow> int \<Rightarrow> dropTally \<Rightarrow> int \<Rightarrow> 'st statefulFilterProcessor \<Rightarrow> 'st statefulFilterProcessor" where
  "report env signal evaluated dropped kept fp =
     (let fp1 = (if 0 < evaluated then sfAdd ''evaluated'' evaluated [(''signal'', signal)] fp else fp);
          fp2 = (if 0 < kept then sfAdd ''kept'' kept [(''signal'', signal)] fp1 else fp1)
      in if length dropped = 0 then fp2
         else let fp3 = fold (\<lambda>(rule, n). sfAdd ''dropped'' n [(''signal'', signal), (''rule'', rule)]) (sfIter env dropped) fp2;
                  (now, fp4) = sfNow fp3;
                  (ok, d) = dropLogAllow now (fp_dropLog fp4)
              in fp4\<lparr>fp_dropLog := d\<rparr>)"

section \<open>Filtering\<close>

text \<open>The captured variables of the removal closures.\<close>

record filterTally =
  evaluated :: int
  kept :: int
  dropped :: dropTally

definition noItems :: filterTally where
  "noItems = \<lparr>evaluated = 0, kept = 0, dropped = []\<rparr>"

fun tallyIncr :: "string \<Rightarrow> dropTally \<Rightarrow> dropTally" where
  "tallyIncr i [] = [(i, 1)]"
| "tallyIncr i ((k, n) # d) = (if k = i then (k, n + 1) # d else (k, n) # tallyIncr i d)"

text \<open>The body of every closure: count the item, match it, and say whether it goes.\<close>

definition judge :: "'re ruleLib \<Rightarrow> 're ruleSet \<Rightarrow> string \<Rightarrow> gotime \<Rightarrow> evalCtx \<Rightarrow> filterTally \<Rightarrow> bool \<times> filterTally" where
  "judge lib rs signal now e s =
     (let s1 = s\<lparr>evaluated := evaluated s + 1\<rparr>
      in case match_rule lib rs signal e now of
           None \<Rightarrow> (False, s1)
         | Some r \<Rightarrow>
             if crAction r = actionKeep then (False, s1\<lparr>kept := kept s1 + 1\<rparr>)
             else (True, s1\<lparr>dropped := tallyIncr (crId r) (dropped s1)\<rparr>))"

datatype sf_skip = ErrSkipProcessingData

definition finish ::
  "('st, 're) sfEnv \<Rightarrow> string \<Rightarrow> 'a list \<times> filterTally \<Rightarrow> 'st statefulFilterProcessor
   \<Rightarrow> ('a list \<times> sf_skip option) \<times> 'st statefulFilterProcessor" where
  "finish env signal r fp =
     (let (out, s) = r; fp1 = report env signal (evaluated s) (dropped s) (kept s) fp
      in ((out, if length out = 0 then Some ErrSkipProcessingData else None), fp1))"

definition spanCtx :: "attrs \<Rightarrow> string \<Rightarrow> Span \<Rightarrow> evalCtx" where
  "spanCtx resAttrs scope sp = \<lparr>ecResource = resAttrs, ecAttrs = spAttributes sp, ecScope = scope, ecName = spName sp,
     ecBody = '''', ecSeverity = ''''\<rparr>"

definition sfProcessTraces ::
  "('st, 're) sfEnv \<Rightarrow> (filterTally, Span) pdataLib \<Rightarrow> Traces \<Rightarrow> 'st statefulFilterProcessor
   \<Rightarrow> (Traces \<times> sf_skip option) \<times> 'st statefulFilterProcessor" where
  "sfProcessTraces env lib td fp =
     (let rs = soCurrent (sfOps env) (fp_store fp)
      in if length (rsTraces rs) = 0 then ((td, None), fp)
         else let (now, fp1) = sfNow fp
              in finish env signalTraces
                   (pruneResources lib (\<lambda>resAttrs scope s sp.
                      let (b, s1) = judge (sfLib env) rs signalTraces now (spanCtx resAttrs scope sp) s in (b, sp, s1)) noItems td) fp1)"

definition logCtx :: "'re ruleLib \<Rightarrow> bool \<Rightarrow> attrs \<Rightarrow> string \<Rightarrow> LogRecord \<Rightarrow> evalCtx" where
  "logCtx lib body resAttrs scope lr = \<lparr>ecResource = resAttrs, ecAttrs = lrAttributes lr, ecScope = scope, ecName = '''',
     ecBody = (if body then libAsString lib (lrBody lr) else ''''), ecSeverity = lrSeverityText lr\<rparr>"

definition sfProcessLogs ::
  "('st, 're) sfEnv \<Rightarrow> (filterTally, LogRecord) pdataLib \<Rightarrow> Logs \<Rightarrow> 'st statefulFilterProcessor
   \<Rightarrow> (Logs \<times> sf_skip option) \<times> 'st statefulFilterProcessor" where
  "sfProcessLogs env lib ld fp =
     (let rs = soCurrent (sfOps env) (fp_store fp)
      in if length (rsLogs rs) = 0 then ((ld, None), fp)
         else let (now, fp1) = sfNow fp
              in finish env signalLogs
                   (pruneResources lib (\<lambda>resAttrs scope s lr.
                      let (b, s1) = judge (sfLib env) rs signalLogs now (logCtx (sfLib env) (rsNeedsBody rs) resAttrs scope lr) s
                      in (b, lr, s1)) noItems ld) fp1)"

definition removePoints ::
  "('s, DataPoint) removeIf \<Rightarrow> (attrs \<Rightarrow> 's \<Rightarrow> bool \<times> 's) \<Rightarrow> 's \<Rightarrow> DataPoint list \<Rightarrow> DataPoint list \<times> 's" where
  "removePoints rm keep s dps = rm (\<lambda>s dp. let (k, s1) = keep (dpAttributes dp) s in (\<not> k, dp, s1)) s dps"

definition removeDataPoints ::
  "('s, DataPoint) removeIf \<Rightarrow> (attrs \<Rightarrow> 's \<Rightarrow> bool \<times> 's) \<Rightarrow> 's \<Rightarrow> Metric \<Rightarrow> bool \<times> Metric \<times> 's" where
  "removeDataPoints rm keep s m =
     (case mData m of
        Gauge dps \<Rightarrow> let (dps', s1) = removePoints rm keep s dps in (length dps' = 0, m\<lparr>mData := Gauge dps'\<rparr>, s1)
      | Sum dps \<Rightarrow> let (dps', s1) = removePoints rm keep s dps in (length dps' = 0, m\<lparr>mData := Sum dps'\<rparr>, s1)
      | Histogram dps \<Rightarrow> let (dps', s1) = removePoints rm keep s dps in (length dps' = 0, m\<lparr>mData := Histogram dps'\<rparr>, s1)
      | ExponentialHistogram dps \<Rightarrow>
          let (dps', s1) = removePoints rm keep s dps in (length dps' = 0, m\<lparr>mData := ExponentialHistogram dps'\<rparr>, s1)
      | Summary dps \<Rightarrow> let (dps', s1) = removePoints rm keep s dps in (length dps' = 0, m\<lparr>mData := Summary dps'\<rparr>, s1)
      | MetricEmpty \<Rightarrow> (False, m, s))"

definition pointCtx :: "attrs \<Rightarrow> string \<Rightarrow> string \<Rightarrow> attrs \<Rightarrow> evalCtx" where
  "pointCtx resAttrs scope nm as = \<lparr>ecResource = resAttrs, ecAttrs = as, ecScope = scope, ecName = nm,
     ecBody = '''', ecSeverity = ''''\<rparr>"

definition sfProcessMetrics ::
  "('st, 're) sfEnv \<Rightarrow> (filterTally, Metric) pdataLib \<Rightarrow> (filterTally, DataPoint) removeIf \<Rightarrow> Metrics \<Rightarrow> 'st statefulFilterProcessor
   \<Rightarrow> (Metrics \<times> sf_skip option) \<times> 'st statefulFilterProcessor" where
  "sfProcessMetrics env lib rm md fp =
     (let rs = soCurrent (sfOps env) (fp_store fp)
      in if length (rsMetrics rs) = 0 then ((md, None), fp)
         else let (now, fp1) = sfNow fp
              in finish env signalMetrics
                   (pruneResources lib (\<lambda>resAttrs scope s m.
                      removeDataPoints rm (\<lambda>as s.
                        let (b, s1) = judge (sfLib env) rs signalMetrics now (pointCtx resAttrs scope (mName m) as) s
                        in (\<not> b, s1)) s m) noItems md) fp1)"

text \<open>A skipped batch is accepted and not handed on.\<close>

definition sfConsume :: "('a \<times> sf_skip option) \<times> 'st statefulFilterProcessor \<Rightarrow> 'a option \<times> 'st statefulFilterProcessor" where
  "sfConsume r = (case r of ((out, Some ErrSkipProcessingData), fp) \<Rightarrow> (None, fp) | ((out, None), fp) \<Rightarrow> (Some out, fp))"

definition sfConsumeTraces ::
  "('st, 're) sfEnv \<Rightarrow> (filterTally, Span) pdataLib \<Rightarrow> Traces \<Rightarrow> 'st statefulFilterProcessor \<Rightarrow> Traces option \<times> 'st statefulFilterProcessor" where
  "sfConsumeTraces env lib td fp = sfConsume (sfProcessTraces env lib td fp)"

definition sfConsumeLogs ::
  "('st, 're) sfEnv \<Rightarrow> (filterTally, LogRecord) pdataLib \<Rightarrow> Logs \<Rightarrow> 'st statefulFilterProcessor \<Rightarrow> Logs option \<times> 'st statefulFilterProcessor" where
  "sfConsumeLogs env lib ld fp = sfConsume (sfProcessLogs env lib ld fp)"

definition sfConsumeMetrics ::
  "('st, 're) sfEnv \<Rightarrow> (filterTally, Metric) pdataLib \<Rightarrow> (filterTally, DataPoint) removeIf \<Rightarrow> Metrics \<Rightarrow> 'st statefulFilterProcessor
   \<Rightarrow> Metrics option \<times> 'st statefulFilterProcessor" where
  "sfConsumeMetrics env lib rm md fp = sfConsume (sfProcessMetrics env lib rm md fp)"

end
