(* ===== verification/Sf_Registry.thy ===== *)
theory Sf_Registry
  imports Shared_Registry Sf_Processor
begin

text \<open>
  Sharing a rule store (\<^verbatim>\<open>store_shared.go\<close>) and building the filter's pipelines (\<^verbatim>\<open>factory.go\<close> of
  \<^verbatim>\<open>statefulfilterprocessor\<close>). The entries extend those of \<^verbatim>\<open>Shared_Registry\<close> by the flags that make the
  initial load and the refresh loop happen once per store. A handle is itself a rule store and keeps
  the contract \<open>rule_store\<close>. Shown over every run: one store per component, open exactly as long as
  a pipeline uses it, with well-formed snapshots.
\<close>

section \<open>The registry\<close>

record storeEntry = sharedEntry +
  loaded :: bool
  started :: bool

type_synonym 're storeRegistry = "('re redisRuleStore, storeEntry) registry"

definition newStoreEntry :: "nat \<Rightarrow> storeEntry" where
  "newStoreEntry b = \<lparr>se_backend = b, refs = 1, gaugeReg = False, gaugeSet = False, loaded = False, started = False\<rparr>"

definition storeAcquire :: "string \<Rightarrow> 'err + 're redisRuleStore \<Rightarrow> 're storeRegistry \<Rightarrow> ('err + nat) \<times> 're storeRegistry" where
  "storeAcquire i build r = acquire newStoreEntry i build r"

definition initialLoadOnce :: "'re ruleLib \<Rightarrow> string \<Rightarrow> poll \<Rightarrow> 're storeRegistry \<Rightarrow> string option \<times> 're storeRegistry" where
  "initialLoadOnce lib i p r =
     (case entries r i of
        None \<Rightarrow> (None, r)
      | Some e \<Rightarrow>
          if loaded e then (None, r)
          else let r1 = r\<lparr>entries := (entries r)(i \<mapsto> e\<lparr>loaded := True\<rparr>)\<rparr>;
                   (err, st) = initialLoad lib p (backends r1 ! se_backend e)
               in (err, r1\<lparr>backends := (backends r1)[se_backend e := st]\<rparr>))"

definition startOnce :: "string \<Rightarrow> 're storeRegistry \<Rightarrow> 're storeRegistry" where
  "startOnce i r =
     (case entries r i of
        None \<Rightarrow> r
      | Some e \<Rightarrow>
          if started e then r
          else let r1 = r\<lparr>entries := (entries r)(i \<mapsto> e\<lparr>started := True\<rparr>)\<rparr>
               in r1\<lparr>backends := (backends r1)[se_backend e := rr_start (backends r1 ! se_backend e)]\<rparr>)"

definition storeRelease :: "string \<Rightarrow> 're storeRegistry \<Rightarrow> 're storeRegistry" where
  "storeRelease i r = release rr_close i r"

definition storeRegisterGauges :: "string \<Rightarrow> 'err option \<Rightarrow> 're storeRegistry \<Rightarrow> 'err option \<times> 're storeRegistry" where
  "storeRegisterGauges i reg r = registerGauges i reg r"

definition sharedStoreClose :: "nat \<Rightarrow> 're storeRegistry \<Rightarrow> 're storeRegistry" where
  "sharedStoreClose k r =
     (let h = handles r ! k
      in if h_once h then r
         else storeRelease (h_id h) (r\<lparr>handles := (handles r)[k := h\<lparr>h_once := True\<rparr>]\<rparr>))"

lemma sharedStoreClose_eq: "sharedStoreClose k r = closeHandle rr_close k r"
  by (simp add: sharedStoreClose_def storeRelease_def closeHandle_def Let_def)

text \<open>
  The handle \<open>k\<close> as a \<^verbatim>\<open>ruleStore\<close>, whose state is the registry: \<^verbatim>\<open>initialLoad\<close>, \<^verbatim>\<open>start\<close> and \<^verbatim>\<open>close\<close> go
  through the registry, the others are those of the store it embeds.
\<close>

definition embedded :: "nat \<Rightarrow> 're storeRegistry \<Rightarrow> 're redisRuleStore" where
  "embedded k r = backends r ! h_backend (handles r ! k)"

definition sharedStoreOps :: "'re ruleLib \<Rightarrow> nat \<Rightarrow> ('re storeRegistry, 're) ruleStore" where
  "sharedStoreOps lib k =
     \<lparr>soCurrent = (\<lambda>r. current (embedded k r)),
      soInitialLoad = (\<lambda>p r. initialLoadOnce lib (h_id (handles r ! k)) p r),
      soStart = (\<lambda>r. startOnce (h_id (handles r ! k)) r),
      soClose = sharedStoreClose k,
      soStats = (\<lambda>r. rr_stats (embedded k r))\<rparr>"

section \<open>The factory\<close>

datatype 'e sf_create_error = SfCfgInvalid sf_cfg_error | SfStoreFailed "'e redis_error" | SfProcessorFailed "'e sf_error"

definition acquireStore ::
  "(tls_client_config \<Rightarrow> 'e + 'tls) \<Rightarrow> string \<Rightarrow> sfConfig \<Rightarrow> 're storeRegistry \<Rightarrow> ('e sf_create_error + sfConfig \<times> nat) \<times> 're storeRegistry" where
  "acquireStore loadTLS i cfg r =
     (case sfValidate cfg of
        Some err \<Rightarrow> (Inl (SfCfgInvalid err), r)
      | None \<Rightarrow>
          let oCfg = applyDefaults cfg
          in case storeAcquire i (newRedisRuleStore loadTLS (the (sfRedis oCfg)) oCfg) r of
               (Inl err, r1) \<Rightarrow> (Inl (SfStoreFailed err), r1)
             | (Inr k, r1) \<Rightarrow> (Inr (oCfg, k), r1))"

text \<open>The processor reads the shared store through its handle: its store's state is the registry.\<close>

definition sfCreateProcessor ::
  "(tls_client_config \<Rightarrow> 'e + 'tls) \<Rightarrow> 'e option \<Rightarrow> 'e option \<Rightarrow> gotime stream \<Rightarrow> string \<Rightarrow> sfConfig \<Rightarrow> 're storeRegistry
   \<Rightarrow> ('e sf_create_error + 're storeRegistry statefulFilterProcessor \<times> nat) \<times> 're storeRegistry" where
  "sfCreateProcessor loadTLS tel reg clk i cfg r =
     (case acquireStore loadTLS i cfg r of
        (Inl err, r1) \<Rightarrow> (Inl err, r1)
      | (Inr (oCfg, k), r1) \<Rightarrow>
          let (gerr, r2) = (if tel = None then storeRegisterGauges i reg r1 else (None, r1))
          in case newStatefulFilterProcessor tel gerr True clk oCfg r2 of
               Inl err \<Rightarrow> (Inl (SfProcessorFailed err), r2)
             | Inr fp \<Rightarrow> (Inr (fp, k), r2))"

definition sfCreateTracesProcessor ::
  "(tls_client_config \<Rightarrow> 'e + 'tls) \<Rightarrow> 'e option \<Rightarrow> 'e option \<Rightarrow> gotime stream \<Rightarrow> string \<Rightarrow> sfConfig \<Rightarrow> 're storeRegistry
   \<Rightarrow> ('e sf_create_error + 're storeRegistry statefulFilterProcessor \<times> nat) \<times> 're storeRegistry" where
  "sfCreateTracesProcessor = sfCreateProcessor"

definition sfCreateMetricsProcessor ::
  "(tls_client_config \<Rightarrow> 'e + 'tls) \<Rightarrow> 'e option \<Rightarrow> 'e option \<Rightarrow> gotime stream \<Rightarrow> string \<Rightarrow> sfConfig \<Rightarrow> 're storeRegistry
   \<Rightarrow> ('e sf_create_error + 're storeRegistry statefulFilterProcessor \<times> nat) \<times> 're storeRegistry" where
  "sfCreateMetricsProcessor = sfCreateProcessor"

definition sfCreateLogsProcessor ::
  "(tls_client_config \<Rightarrow> 'e + 'tls) \<Rightarrow> 'e option \<Rightarrow> 'e option \<Rightarrow> gotime stream \<Rightarrow> string \<Rightarrow> sfConfig \<Rightarrow> 're storeRegistry
   \<Rightarrow> ('e sf_create_error + 're storeRegistry statefulFilterProcessor \<times> nat) \<times> 're storeRegistry" where
  "sfCreateLogsProcessor = sfCreateProcessor"

section \<open>Runs of a collector\<close>

text \<open>Pipelines are created, started and shut down, each through its handle; the stores' loops poll.\<close>

inductive sf_system :: "'re ruleLib \<Rightarrow> 're storeRegistry \<Rightarrow> bool" for lib where
  sf_new: "sf_system lib newRegistry"
| sf_create: "sf_system lib r \<Longrightarrow> f \<in> {sfCreateTracesProcessor, sfCreateMetricsProcessor, sfCreateLogsProcessor}
    \<Longrightarrow> sf_system lib (snd (f (loadTLS :: tls_client_config \<Rightarrow> string + unit) tel reg clk i cfg r))"
| sf_start: "sf_system lib r \<Longrightarrow> k < length (handles r) \<Longrightarrow> sfOps env = sharedStoreOps lib k
    \<Longrightarrow> sfStart env p (fp\<lparr>fp_store := r\<rparr>) = (err :: string sf_error option, fp') \<Longrightarrow> sf_system lib (fp_store fp')"
| sf_poll: "sf_system lib r \<Longrightarrow> b < length (backends r)
    \<Longrightarrow> sf_system lib (r\<lparr>backends := (backends r)[b := snd (refresh lib force p (backends r ! b))]\<rparr>)"
| sf_shutdown: "sf_system lib r \<Longrightarrow> k < length (handles r) \<Longrightarrow> sfOps env = sharedStoreOps lib k
    \<Longrightarrow> sf_system lib (fp_store (sfShutdown env (fp\<lparr>fp_store := r\<rparr>)))"

text \<open>
  What every step keeps of the registry and of the stores in it: the store a component's pipelines
  use is never a closed one, and a closed store's loop is not running.
\<close>

definition store_ok :: "bool \<Rightarrow> 're redisRuleStore \<Rightarrow> bool" where
  "store_ok cl st \<longleftrightarrow> rr_inv st \<and> (rr_clientClosed st \<longleftrightarrow> cl) \<and> (rr_once st \<longleftrightarrow> cl) \<and> (cl \<longrightarrow> \<not> rr_running st)"

definition stores_ok :: "'re storeRegistry \<Rightarrow> bool" where
  "stores_ok r \<longleftrightarrow> shared_run newStoreEntry rr_close r
     \<and> (\<forall>b < length (backends r). store_ok (b \<in> set (closedBackends r)) (backends r ! b))"

lemma stores_inv: "stores_ok r \<Longrightarrow> reg_inv r"
  unfolding stores_ok_def by (rule shared_run_inv) (auto simp: newStoreEntry_def)

lemma stores_nth: "stores_ok r \<Longrightarrow> b < length (backends r) \<Longrightarrow> store_ok (b \<in> set (closedBackends r)) (backends r ! b)"
  by (simp add: stores_ok_def)

lemma entry_open: "stores_ok r \<Longrightarrow> entries r i = Some e \<Longrightarrow> se_backend e < length (backends r) \<and> se_backend e \<notin> set (closedBackends r)"
proof -
  assume "stores_ok r" and e: "entries r i = Some e"
  then have inv: "reg_inv r" by (simp add: stores_inv)
  have "se_backend e \<in> ran (backendOf r)" using e by (auto simp: ran_def backendOf_def)
  with inv show ?thesis by (auto simp: reg_inv_def)
qed

lemma nth_update: "j < length xs \<Longrightarrow> xs[i := x] ! j = (if i = j then x else xs ! j)"
  by (cases "i < length xs") (simp_all add: nth_list_update list_update_beyond)

lemma store_ok_new: "store_ok False (newRuleStoreWithClient rc cfg)"
  by (simp add: store_ok_def newRuleStore_inv) (simp add: newRuleStoreWithClient_def)

lemma store_ok_refresh: "store_ok c st \<Longrightarrow> store_ok c (snd (refresh lib force p st))"
  using refresh_inv[of st lib force p]
  by (cases rule: refresh_cases[of lib force p st]) (auto simp: store_ok_def rrRecordError_def markSuccess_def)

lemma store_ok_close: "store_ok c st \<Longrightarrow> store_ok True (rr_close st)"
  by (auto simp: store_ok_def rr_close_def rr_inv_def)

lemma store_ok_start: "store_ok False st \<Longrightarrow> store_ok False (rr_start st)"
  by (auto simp: store_ok_def rr_start_def rr_inv_def)

lemma stores_acquire:
  assumes ok: "stores_ok r" and build: "\<And>st. build = Inr st \<Longrightarrow> store_ok False st"
  shows "stores_ok (snd (acquire newStoreEntry i build r))"
proof -
  let ?r = "snd (acquire newStoreEntry i build r)"
  have "length (backends r) \<notin> set (closedBackends r)" using stores_inv[OF ok] by (auto simp: reg_inv_def)
  then have "\<forall>b < length (backends ?r). store_ok (b \<in> set (closedBackends ?r)) (backends ?r ! b)"
    using ok build
    by (cases build) (auto simp: acquire_def stores_ok_def split_beta Let_def nth_append less_Suc_eq split: option.split)
  then show ?thesis using ok by (simp add: stores_ok_def run_acquire_any)
qed

lemma stores_gauges: "stores_ok r \<Longrightarrow> stores_ok (snd (registerGauges i reg r))"
proof -
  have "backends (snd (registerGauges i reg r)) = backends r" "closedBackends (snd (registerGauges i reg r)) = closedBackends r"
    by (simp_all add: registerGauges_def split: option.split)
  then show "stores_ok r \<Longrightarrow> stores_ok (snd (registerGauges i reg r))" by (simp add: stores_ok_def run_registerGauges)
qed

lemma stores_use:
  "stores_ok r \<Longrightarrow> (b < length (backends r) \<Longrightarrow> store_ok (b \<in> set (closedBackends r)) st) \<Longrightarrow> stores_ok (r\<lparr>backends := (backends r)[b := st]\<rparr>)"
  by (auto simp: stores_ok_def run_use nth_update)

lemma stores_flags:
  "stores_ok r \<Longrightarrow> entries r i = Some e \<Longrightarrow> se_backend e' = se_backend e \<Longrightarrow> refs e' = refs e \<Longrightarrow> stores_ok (r\<lparr>entries := (entries r)(i \<mapsto> e')\<rparr>)"
  by (simp add: stores_ok_def run_flags)

lemma stores_close: "stores_ok r \<Longrightarrow> k < length (handles r) \<Longrightarrow> stores_ok (sharedStoreClose k r)"
proof -
  assume ok: "stores_ok r" and k: "k < length (handles r)"
  have "store_ok (b \<in> set (closedBackends (sharedStoreClose k r))) (backends (sharedStoreClose k r) ! b)"
    if b: "b < length (backends (sharedStoreClose k r))" for b
  proof -
    have "store_ok (b \<in> set (closedBackends r)) (backends r ! b)" if "b < length (backends r)"
      using ok that by (simp add: stores_ok_def)
    with b show ?thesis
      by (auto simp: sharedStoreClose_eq closeHandle_def release_def closeBackend_def Let_def nth_update
          intro: store_ok_close split: option.splits if_splits)
  qed
  then show ?thesis using ok k by (simp add: stores_ok_def sharedStoreClose_eq run_close)
qed

lemma stores_load: "stores_ok r \<Longrightarrow> stores_ok (snd (initialLoadOnce lib i p r))"
proof (cases "\<exists>e. entries r i = Some e \<and> \<not> loaded e")
  case True
  then obtain e where e: "entries r i = Some e" "\<not> loaded e" by blast
  let ?r = "r\<lparr>entries := (entries r)(i \<mapsto> e\<lparr>loaded := True\<rparr>)\<rparr>" and ?b = "se_backend e"
  assume ok: "stores_ok r"
  then have "stores_ok ?r" by (rule stores_flags[OF _ e(1)]) simp_all
  moreover have "store_ok (?b \<in> set (closedBackends r)) (snd (refresh lib True p (backends r ! ?b)))"
    using entry_open[OF ok e(1)] by (intro store_ok_refresh stores_nth[OF ok]) simp
  ultimately show ?thesis
    using e stores_use[of ?r ?b "snd (initialLoad lib p (backends r ! ?b))"]
    by (simp add: initialLoadOnce_def split_beta Let_def initialLoad_def)
qed (auto simp: initialLoadOnce_def split: option.split)

lemma stores_start: "stores_ok r \<Longrightarrow> stores_ok (startOnce i r)"
proof (cases "\<exists>e. entries r i = Some e \<and> \<not> started e")
  case True
  then obtain e where e: "entries r i = Some e" "\<not> started e" by blast
  let ?r = "r\<lparr>entries := (entries r)(i \<mapsto> e\<lparr>started := True\<rparr>)\<rparr>" and ?b = "se_backend e"
  assume ok: "stores_ok r"
  then have "stores_ok ?r" by (rule stores_flags[OF _ e(1)]) simp_all
  moreover have "?b \<notin> set (closedBackends r)" "store_ok (?b \<in> set (closedBackends r)) (backends r ! ?b)"
    using entry_open[OF ok e(1)] stores_nth[OF ok] by blast+
  ultimately show ?thesis
    using e stores_use[of ?r ?b "rr_start (backends r ! ?b)"]
    by (simp add: startOnce_def Let_def store_ok_start)
qed (auto simp: startOnce_def split: option.split)

lemma stores_create:
  assumes "stores_ok r"
  shows "stores_ok (snd (sfCreateProcessor loadTLS tel reg clk i cfg r))"
proof -
  have acq: "stores_ok (snd (acquireStore loadTLS i cfg r))"
  proof -
    have "store_ok False st" if "newRedisRuleStore loadTLS rc oc = Inr st" for rc oc st
      using that by (auto simp: newRedisRuleStore_def store_ok_new split: sum.splits)
    then have "stores_ok (snd (storeAcquire i (newRedisRuleStore loadTLS rc oc) r))" for rc oc
      unfolding storeAcquire_def by (rule stores_acquire[OF assms])
    then show ?thesis using assms
      by (auto simp: acquireStore_def Let_def split: option.split prod.split sum.split intro: prod.collapse) (metis snd_conv)+
  qed
  show ?thesis
  proof (cases "acquireStore loadTLS i cfg r")
    case (Pair res r1)
    then have "stores_ok r1" using acq by simp
    moreover then have "stores_ok (snd (storeRegisterGauges i reg r1))" unfolding storeRegisterGauges_def by (rule stores_gauges)
    ultimately show ?thesis
      by (auto simp: sfCreateProcessor_def Pair Let_def split_beta split: sum.split)
  qed
qed

lemma sf_system_ok: "sf_system lib r \<Longrightarrow> stores_ok r"
proof (induction rule: sf_system.induct)
  case sf_new
  show ?case by (simp add: stores_ok_def run_new) (simp add: newRegistry_def)
next
  case (sf_create r f loadTLS tel reg clk i cfg)
  then show ?case
    by (auto simp: sfCreateTracesProcessor_def sfCreateMetricsProcessor_def sfCreateLogsProcessor_def intro: stores_create)
next
  case (sf_start r k env p fp err fp')
  then have "fp_store fp' \<in> {snd (initialLoadOnce lib i p r), startOnce i (snd (initialLoadOnce lib i p r)), startOnce i r,
      startOnce (h_id (handles (snd (initialLoadOnce lib i p r)) ! k)) (snd (initialLoadOnce lib i p r))}" if "i = h_id (handles r ! k)" for i
    using that by (auto simp: sfStart_def sharedStoreOps_def split_beta Let_def split: option.splits if_splits)
  then show ?case using stores_load[OF sf_start.IH] stores_start[OF sf_start.IH] stores_start[OF stores_load[OF sf_start.IH]] by auto
next
  case (sf_poll r b force p)
  then show ?case by (intro stores_use) (auto simp: stores_ok_def intro: store_ok_refresh)
next
  case (sf_shutdown r k env fp)
  then show ?case by (simp add: stores_close sfShutdown_def sharedStoreOps_def)
qed

text \<open>
  C38. Over every run of creations, starts, polls and shutdowns of filters: the open pipelines of
  a component use one store; a store is closed exactly when its last pipeline is, and only once;
  the snapshot a pipeline reads is well formed, and it is the snapshot of a store whose client is
  open; the background loop of a closed store has stopped.
\<close>

theorem shared_store_lifetime:
  assumes "sf_system lib r"
  shows "(\<forall>h \<in> set (handles r). \<forall>h' \<in> set (handles r). \<not> h_once h \<and> \<not> h_once h' \<and> h_id h = h_id h' \<longrightarrow> h_backend h = h_backend h')
    \<and> (\<forall>b < length (backends r). b \<in> set (closedBackends r) \<longleftrightarrow> \<not> (\<exists>h \<in> set (handles r). \<not> h_once h \<and> h_backend h = b))
    \<and> distinct (closedBackends r)
    \<and> (\<forall>b < length (backends r). wf_set (current (backends r ! b))
         \<and> rr_clientClosed (backends r ! b) = (b \<in> set (closedBackends r)) \<and> (b \<in> set (closedBackends r) \<longrightarrow> \<not> rr_running (backends r ! b)))"
proof -
  have ok: "stores_ok r" by (rule sf_system_ok[OF assms])
  have "\<forall>b < length (backends r). wf_set (current (backends r ! b))
      \<and> rr_clientClosed (backends r ! b) = (b \<in> set (closedBackends r)) \<and> (b \<in> set (closedBackends r) \<longrightarrow> \<not> rr_running (backends r ! b))"
    using ok by (simp add: stores_ok_def store_ok_def current_def rr_inv_def)
  then show ?thesis using reg_inv_lifetime[OF stores_inv[OF ok]] by blast
qed

text \<open>The work done once: a second pipeline neither loads again nor starts a second loop.\<close>

lemma load_once: "snd (initialLoadOnce lib i p' (snd (initialLoadOnce lib i p r))) = snd (initialLoadOnce lib i p r)"
  by (simp add: initialLoadOnce_def split_beta Let_def split: option.split)

lemma start_once: "startOnce i (startOnce i r) = startOnce i r"
  by (simp add: startOnce_def Let_def split: option.split)

text \<open>A handle keeps the contract of a rule store, so what is proved of the filter holds on shared stores.\<close>

definition handle_ok :: "nat \<Rightarrow> 're storeRegistry \<Rightarrow> bool" where
  "handle_ok k r \<longleftrightarrow> stores_ok r \<and> k < length (handles r) \<and> h_backend (handles r ! k) < length (backends r)"

lemma once_frame [simp]:
  "handles (snd (initialLoadOnce lib i p r)) = handles r" "length (backends (snd (initialLoadOnce lib i p r))) = length (backends r)"
  "handles (startOnce i r) = handles r" "length (backends (startOnce i r)) = length (backends r)"
  by (simp_all add: initialLoadOnce_def startOnce_def split_beta Let_def split: option.split)

lemma close_frame:
  "length (handles (sharedStoreClose k r)) = length (handles r)" "length (backends (sharedStoreClose k r)) = length (backends r)"
  "k < length (handles r) \<Longrightarrow> h_backend (handles (sharedStoreClose k r) ! k) = h_backend (handles r ! k)"
  by (simp_all add: sharedStoreClose_eq closeHandle_def release_def closeBackend_def Let_def split: option.split)

interpretation shared: rule_store "sharedStoreOps lib k" "handle_ok k" for lib k
proof
  fix r :: "'a storeRegistry" and p
  assume ok: "handle_ok k r"
  show "wf_set (soCurrent (sharedStoreOps lib k) r)"
    using ok by (simp add: sharedStoreOps_def embedded_def handle_ok_def stores_ok_def store_ok_def current_def rr_inv_def)
  show "handle_ok k (snd (soInitialLoad (sharedStoreOps lib k) p r))" "handle_ok k (soStart (sharedStoreOps lib k) r)"
    using ok by (simp_all add: sharedStoreOps_def handle_ok_def stores_load stores_start)
  show "handle_ok k (soClose (sharedStoreOps lib k) r)"
    using ok by (simp add: sharedStoreOps_def handle_ok_def stores_close close_frame)
qed

lemma handle_ok_system: "sf_system lib r \<Longrightarrow> k < length (handles r) \<Longrightarrow> \<not> h_once (handles r ! k) \<Longrightarrow> handle_ok k r"
  unfolding handle_ok_def
proof (intro conjI)
  assume r: "sf_system lib r" "k < length (handles r)" "\<not> h_once (handles r ! k)"
  show "stores_ok r" by (rule sf_system_ok[OF r(1)])
  show "h_backend (handles r ! k) < length (backends r)"
    by (rule reg_inv_handles[OF stores_inv[OF sf_system_ok[OF r(1)]], of "handles r ! k"]) (use r in simp_all)
qed

definition filterConfig :: sfConfig where
  "filterConfig = sfCreateDefaultConfig\<lparr>sfRedis := Some \<lparr>sfAddr = ''redis:6379'', sfAddrs = [], sfMasterName = [],
     sfPassword = [], sfDB = 0, sfKeyPrefix = [], sfTimeout = 0, sfTLS = None\<rparr>\<rparr>"

definition twoFilters :: "string storeRegistry" where
  "twoFilters = snd (sfCreateLogsProcessor (\<lambda>_. Inl [] :: string + unit) None None (sconst 0) ''filter'' filterConfig
     (snd (sfCreateTracesProcessor (\<lambda>_. Inl [] :: string + unit) None None (sconst 0) ''filter'' filterConfig newRegistry)))"

definition filterEnv :: "nat \<Rightarrow> (string storeRegistry, string) sfEnv" where
  "filterEnv k = \<lparr>sfLib = exampleRuleLib, sfOps = sharedStoreOps exampleRuleLib k, sfIter = (\<lambda>d. d)\<rparr>"

definition filterProc :: "string storeRegistry \<Rightarrow> string storeRegistry statefulFilterProcessor" where
  "filterProc r = \<lparr>fp_config = filterConfig, fp_store = r, fp_dropLog = None, fp_gaugeReg = False, fp_measurements = [], fp_clock = sconst 0\<rparr>"

definition startedFilters :: "string storeRegistry" where
  "startedFilters = fp_store (snd (sfStart (filterEnv 0) examplePoll (filterProc twoFilters) :: string sf_error option \<times> _))"

definition stopFilter :: "nat \<Rightarrow> string storeRegistry \<Rightarrow> string storeRegistry" where
  "stopFilter k r = fp_store (sfShutdown (filterEnv k) (filterProc r))"

lemma filterConfig_valid: "sfValidate filterConfig = None"
  by (simp add: sfValidate_def filterConfig_def sfCreateDefaultConfig_def sf_defaults Second_def)

lemma filterConfig_redis: "sfRedis filterConfig = Some \<lparr>sfAddr = ''redis:6379'', sfAddrs = [], sfMasterName = [],
     sfPassword = [], sfDB = 0, sfKeyPrefix = [], sfTimeout = 0, sfTLS = None\<rparr>"
  by (simp add: filterConfig_def)

lemma example_newStore:
  "newRedisRuleStore loadTLS (the (sfRedis (applyDefaults filterConfig))) (applyDefaults filterConfig) =
   Inr (newRuleStoreWithClient (the (sfRedis (applyDefaults filterConfig))) (applyDefaults filterConfig))"
  by (simp add: newRedisRuleStore_def sfBuildRedisOptions_def filterConfig_redis Let_def)

lemmas create_eval = sfCreateLogsProcessor_def sfCreateTracesProcessor_def sfCreateProcessor_def acquireStore_def
  filterConfig_valid storeAcquire_def example_newStore acquire_def addHandle_def
  newStoreEntry_def newStatefulFilterProcessor_def registerGauges_def storeRegisterGauges_def Let_def

lemma twoFilters_eq:
  "twoFilters = \<lparr>entries = [''filter'' \<mapsto> (newStoreEntry 0)\<lparr>refs := 2, gaugeReg := True, gaugeSet := True\<rparr>],
     backends = [newRuleStoreWithClient (the (sfRedis (applyDefaults filterConfig))) (applyDefaults filterConfig)],
     handles = [\<lparr>h_backend = 0, h_id = ''filter'', h_once = False\<rparr>, \<lparr>h_backend = 0, h_id = ''filter'', h_once = False\<rparr>],
     closedBackends = []\<rparr>"
proof -
  have "snd (sfCreateTracesProcessor (\<lambda>_. Inl [] :: string + unit) None None (sconst 0) ''filter'' filterConfig (newRegistry :: string storeRegistry))
    = \<lparr>entries = [''filter'' \<mapsto> (newStoreEntry 0)\<lparr>gaugeReg := True, gaugeSet := True\<rparr>],
       backends = [newRuleStoreWithClient (the (sfRedis (applyDefaults filterConfig))) (applyDefaults filterConfig)],
       handles = [\<lparr>h_backend = 0, h_id = ''filter'', h_once = False\<rparr>], closedBackends = []\<rparr>"
    by (simp add: create_eval newRegistry_def del: applyDefaults_sel)
  then show ?thesis by (simp add: twoFilters_def create_eval del: applyDefaults_sel)
qed

definition filterPair :: "storeEntry \<Rightarrow> string redisRuleStore \<Rightarrow> bool \<Rightarrow> string storeRegistry" where
  "filterPair e st once = \<lparr>entries = [''filter'' \<mapsto> e], backends = [st],
     handles = [\<lparr>h_backend = 0, h_id = ''filter'', h_once = once\<rparr>, \<lparr>h_backend = 0, h_id = ''filter'', h_once = False\<rparr>],
     closedBackends = []\<rparr>"

lemma started_eq:
  "\<exists>e st. startedFilters = filterPair e st False \<and> refs e = 2 \<and> se_backend e = 0"
proof -
  have w: "WaitForInitialLoad filterConfig" "\<not> FailClosedOnEmpty filterConfig" by (simp_all add: filterConfig_def sfCreateDefaultConfig_def)
  define e where "e = \<lparr>se_backend = 0, refs = 2, gaugeReg = True, gaugeSet = True, loaded = True, started = False\<rparr>"
  obtain st where l: "snd (initialLoadOnce exampleRuleLib ''filter'' examplePoll twoFilters) = filterPair e st False"
    unfolding twoFilters_eq initialLoadOnce_def newStoreEntry_def filterPair_def by (simp add: e_def split_beta Let_def)
  have h: "h_id (handles twoFilters ! 0) = ''filter''" by (simp add: twoFilters_eq)
  have "startedFilters = startOnce ''filter'' (filterPair e st False)"
    by (simp add: startedFilters_def sfStart_def filterEnv_def filterProc_def sharedStoreOps_def w h l split_beta Let_def filterPair_def
        split: option.split)
  also have "\<dots> = filterPair (e\<lparr>started := True\<rparr>) (rr_start st) False" by (simp add: startOnce_def filterPair_def e_def Let_def)
  finally show ?thesis by (intro exI[of _ "e\<lparr>started := True\<rparr>"] exI[of _ "rr_start st"]) (simp add: e_def)
qed

lemma twoFilters_system: "sf_system exampleRuleLib twoFilters"
  unfolding twoFilters_def
  by (rule sf_create[where f = sfCreateLogsProcessor], rule sf_create[where f = sfCreateTracesProcessor], rule sf_new) simp_all

theorem shared_store_lifetime_witness:
  "let one = stopFilter 0 startedFilters in
   sf_system exampleRuleLib one \<and> map h_once (handles one) = [True, False]
   \<and> \<not> rr_clientClosed (backends one ! 0) \<and> wf_set (current (backends one ! 0))
   \<and> sf_system exampleRuleLib (stopFilter 1 one) \<and> rr_clientClosed (backends (stopFilter 1 one) ! 0)"
proof -
  have stop: "stopFilter k r = sharedStoreClose k r" for k r
    by (simp add: stopFilter_def sfShutdown_def filterEnv_def filterProc_def sharedStoreOps_def)
  have stopped: "sf_system exampleRuleLib (stopFilter k r)" if "sf_system exampleRuleLib r" "k < length (handles r)" for k r
    using sf_shutdown[OF that, of "filterEnv k" "filterProc r"] by (simp add: stopFilter_def filterEnv_def filterProc_def)
  obtain e st where l: "startedFilters = filterPair e st False" "refs e = 2" "se_backend e = 0"
    using started_eq by blast
  have eq: "stopFilter 0 startedFilters = filterPair (e\<lparr>refs := 1\<rparr>) st True"
    unfolding stop l(1) by (simp add: l filterPair_def sharedStoreClose_eq closeHandle_def release_def Let_def)
  have "sf_system exampleRuleLib startedFilters"
    unfolding startedFilters_def
    using sf_start[OF twoFilters_system, of 0 "filterEnv 0" examplePoll "filterProc twoFilters"]
    by (simp add: twoFilters_eq filterEnv_def filterProc_def) (metis prod.collapse)
  then have one: "sf_system exampleRuleLib (stopFilter 0 startedFilters)" by (rule stopped) (simp add: l filterPair_def)
  then have none: "sf_system exampleRuleLib (stopFilter 1 (stopFilter 0 startedFilters))" by (rule stopped) (simp add: eq filterPair_def)
  have last: "length (backends (stopFilter 1 (stopFilter 0 startedFilters))) = 1"
    "\<forall>h \<in> set (handles (stopFilter 1 (stopFilter 0 startedFilters))). h_once h"
    unfolding eq by (simp_all add: stop l filterPair_def sharedStoreClose_eq closeHandle_def release_def closeBackend_def)
  show ?thesis
    using shared_store_lifetime[OF one] shared_store_lifetime[OF none] one none last unfolding Let_def by (auto simp: eq filterPair_def)
qed

end
