(* ===== verification/Sf_Properties.thy ===== *)
theory Sf_Properties
  imports Sf_Processor
begin

text \<open>
  What the stateful filter does to a batch: exactly the items a drop rule claims are removed, with
  the scopes and resources left empty, everything else goes out unchanged and in order, and the
  counters report it. Proved from the store's contract.
\<close>

section \<open>Judging a list of items\<close>

definition drops :: "'re ruleLib \<Rightarrow> 're ruleSet \<Rightarrow> string \<Rightarrow> gotime \<Rightarrow> evalCtx \<Rightarrow> bool" where
  "drops lib rs signal now e \<longleftrightarrow> snd (shouldDrop lib rs signal e now)"

definition tallyTotal :: "dropTally \<Rightarrow> int" where
  "tallyTotal d = sum_list (map snd d)"

lemma tallyIncr_total: "tallyTotal (tallyIncr i d) = tallyTotal d + 1"
  by (induction i d rule: tallyIncr.induct) (simp_all add: tallyTotal_def)

text \<open>A well-formed rule drops unless it keeps, so the closure's verdict is that of \<^verbatim>\<open>shouldDrop\<close>.\<close>

lemma judge_drops:
  assumes "wf_set rs"
  shows "fst (judge lib rs signal now e s) = drops lib rs signal now e"
proof (cases "match_rule lib rs signal e now")
  case None
  then show ?thesis by (simp add: judge_def drops_def shouldDrop_def)
next
  case (Some r)
  then have "r \<in> set (rulesFor rs signal)" by (auto simp: match_rule_def dest: firstMatch_Some)
  then have "crAction r \<in> {actionDrop, actionKeep}" using assms by (auto simp: wf_set_def rule_wf_def simp del: rule_consts)
  with Some show ?thesis by (auto simp: judge_def drops_def shouldDrop_def)
qed

lemma judge_counts:
  "evaluated (snd (judge lib rs signal now e s)) = evaluated s + 1"
  "tallyTotal (dropped (snd (judge lib rs signal now e s)))
    = tallyTotal (dropped s) + (if fst (judge lib rs signal now e s) then 1 else 0)"
  "0 \<le> kept s \<Longrightarrow> 0 \<le> kept (snd (judge lib rs signal now e s))"
  by (auto simp: judge_def tallyIncr_total Let_def split: option.split)

definition judgeAll ::
  "'re ruleLib \<Rightarrow> 're ruleSet \<Rightarrow> string \<Rightarrow> gotime \<Rightarrow> ('x \<Rightarrow> evalCtx) \<Rightarrow> filterTally \<Rightarrow> 'x list \<Rightarrow> 'x list \<times> filterTally" where
  "judgeAll lib rs signal now ctx s xs =
     seqRemoveIf (\<lambda>s x. let (b, s1) = judge lib rs signal now (ctx x) s in (b, x, s1)) s xs"

lemma judge_run:
  assumes "wf_set rs"
  shows "fst (judgeAll lib rs signal now ctx s xs) = filter (\<lambda>x. \<not> drops lib rs signal now (ctx x)) xs
    \<and> evaluated (snd (judgeAll lib rs signal now ctx s xs)) = evaluated s + int (length xs)
    \<and> tallyTotal (dropped (snd (judgeAll lib rs signal now ctx s xs)))
      = tallyTotal (dropped s) + (int (length xs) - int (length (fst (judgeAll lib rs signal now ctx s xs))))"
  unfolding judgeAll_def
  by (induction xs arbitrary: s) (simp_all add: judge_drops[OF assms(1)] judge_counts split_beta Let_def)

section \<open>Counters\<close>

definition sfTotal :: "string \<Rightarrow> 'st statefulFilterProcessor \<Rightarrow> int" where
  "sfTotal c fp = sum_list (map me_value (filter (\<lambda>m. me_counter m = c) (fp_measurements fp)))"

lemma sfTotal_add [simp]: "sfTotal c (sfAdd c' n as fp) = sfTotal c fp + (if c' = c then n else 0)"
  by (simp add: sfTotal_def sfAdd_def)

lemma sfTotal_frame [simp]:
  "sfTotal c (fp\<lparr>fp_dropLog := d\<rparr>) = sfTotal c fp" "sfTotal c (snd (sfNow fp)) = sfTotal c fp"
  "fp_store (snd (sfNow fp)) = fp_store fp"
  by (simp_all add: sfTotal_def sfNow_def)

lemma sfTotal_drops:
  "sfTotal c (fold (\<lambda>(rule, n). sfAdd ''dropped'' n (f rule)) d fp)
   = sfTotal c fp + (if c = ''dropped'' then tallyTotal d else 0)"
  by (induction d arbitrary: fp) (auto simp: tallyTotal_def)

lemma tallyTotal_perm: "mset d = mset d' \<Longrightarrow> tallyTotal d = tallyTotal d'"
  unfolding tallyTotal_def by (metis mset_map sum_mset_sum_list)

lemma report_counts:
  assumes "sf_env_ok env" "0 \<le> ev"
  shows "sfTotal ''evaluated'' (report env signal ev d k fp) = sfTotal ''evaluated'' fp + ev"
    "sfTotal ''dropped'' (report env signal ev d k fp) = sfTotal ''dropped'' fp + tallyTotal d"
    "fp_store (report env signal ev d k fp) = fp_store fp" "fp_config (report env signal ev d k fp) = fp_config fp"
proof -
  have frame: "fp_store (fold (\<lambda>(rule, n). sfAdd ''dropped'' n (f rule)) xs fp0) = fp_store fp0
    \<and> fp_config (fold (\<lambda>(rule, n). sfAdd ''dropped'' n (f rule)) xs fp0) = fp_config fp0"
    for f xs and fp0 :: "'a statefulFilterProcessor"
    by (induction xs arbitrary: fp0) (auto simp: sfAdd_def)
  have d: "tallyTotal (sfIter env d) = tallyTotal d" using assms(1) by (auto simp: sf_env_ok_def intro: tallyTotal_perm)
  show "sfTotal ''evaluated'' (report env signal ev d k fp) = sfTotal ''evaluated'' fp + ev"
    "sfTotal ''dropped'' (report env signal ev d k fp) = sfTotal ''dropped'' fp + tallyTotal d"
    using assms(2) by (auto simp: report_def split_beta Let_def sfTotal_drops d) (simp_all add: tallyTotal_def)
  show "fp_store (report env signal ev d k fp) = fp_store fp" "fp_config (report env signal ev d k fp) = fp_config fp"
    by (auto simp: report_def split_beta Let_def sfNow_def frame) (simp_all add: sfAdd_def)
qed

section \<open>Spans and log records\<close>

lemma finish_spec:
  assumes "sf_env_ok env" "0 \<le> evaluated s" "finish env signal (out, s) fp = ((out', err), fp')"
  shows "out' = out" "err = Some ErrSkipProcessingData \<longleftrightarrow> out = []"
    "sfTotal ''evaluated'' fp' = sfTotal ''evaluated'' fp + evaluated s"
    "sfTotal ''dropped'' fp' = sfTotal ''dropped'' fp + tallyTotal (dropped s)"
    "fp_store fp' = fp_store fp"
  using assms report_counts[OF assms(1,2), of signal "dropped s" "kept s" fp]
  by (auto simp: finish_def Let_def split: if_splits)

text \<open>Pruning with the closure of a signal, in terms of the tagged items.\<close>

lemma prune_judged:
  assumes ok: "pdata_ok lib" and wf: "wf_set rs"
    and r: "r = pruneResources lib (\<lambda>a sc s x. let (b, s1) = judge L rs signal now (ctx a sc x) s in (b, x, s1)) noItems td"
  shows "tagged (fst r) = filter (\<lambda>(a, sc, x). \<not> drops L rs signal now (ctx a sc x)) (tagged td)"
    "clean (fst r)" "evaluated (snd r) = int (length (tagged td))"
    "tallyTotal (dropped (snd r)) = int (length (tagged td)) - int (length (tagged (fst r)))"
proof -
  let ?f = "\<lambda>a sc s x. let (b, s1) = judge L rs signal now (ctx a sc x) s in (b, x, s1)"
  let ?ctx = "\<lambda>t. case t of (a, sc, x) \<Rightarrow> ctx a sc x"
  have "tagClosure ?f = (\<lambda>s t. let (b, s1) = judge L rs signal now (?ctx t) s in (b, t, s1))"
    by (auto simp: tagClosure_def fun_eq_iff split_beta Let_def)
  then have t: "tagged (fst r) = fst (judgeAll L rs signal now ?ctx noItems (tagged td))"
    "snd r = snd (judgeAll L rs signal now ?ctx noItems (tagged td))"
    using pruneResources_tagged[OF ok, of ?f noItems td] by (simp_all add: r judgeAll_def)
  note run = judge_run[OF wf, of L signal now ?ctx noItems "tagged td", folded t]
  show "tagged (fst r) = filter (\<lambda>(a, sc, x). \<not> drops L rs signal now (ctx a sc x)) (tagged td)"
    using run by (simp add: case_prod_unfold)
  show "evaluated (snd r) = int (length (tagged td))"
    "tallyTotal (dropped (snd r)) = int (length (tagged td)) - int (length (tagged (fst r)))"
    using run by (simp_all add: noItems_def tallyTotal_def)
  show "clean (fst r)" unfolding r by (rule pruneResources_clean[OF ok])
qed

lemma drops_norules: "rulesFor rs signal = [] \<Longrightarrow> \<not> drops lib rs signal now e"
  by (simp add: drops_def shouldDrop_def match_rule_def)

lemma tagged_empty: "clean td \<Longrightarrow> td = [] \<longleftrightarrow> tagged td = []"
  using tagged_items[of td] clean_empty[of td] by auto

text \<open>What a signal's run over a batch comes to.\<close>

lemma filter_run:
  assumes "pdata_ok lib" "wf_set rs" "sf_env_ok env"
    and run: "finish env signal (pruneResources lib (\<lambda>a sc s x.
      let (b, s1) = judge (sfLib env) rs signal now (ctx a sc x) s in (b, x, s1)) noItems td) (snd (sfNow fp)) = ((out, err), fp')"
  shows "tagged out = filter (\<lambda>(a, sc, x). \<not> drops (sfLib env) rs signal now (ctx a sc x)) (tagged td)"
    "err = Some ErrSkipProcessingData \<longleftrightarrow> tagged out = []" "clean out"
    "sfTotal ''evaluated'' fp' = sfTotal ''evaluated'' fp + int (length (tagged td))"
    "sfTotal ''dropped'' fp' = sfTotal ''dropped'' fp + (int (length (tagged td)) - int (length (tagged out)))"
    "fp_store fp' = fp_store fp"
proof -
  obtain out' s where r: "(out', s) = pruneResources lib (\<lambda>a sc s x.
      let (b, s1) = judge (sfLib env) rs signal now (ctx a sc x) s in (b, x, s1)) noItems td"
    using prod.collapse by blast
  note J = prune_judged[OF assms(1,2) r]
  have "0 \<le> evaluated s" using J(3) by simp
  note F = finish_spec[OF assms(3) this run[folded r]]
  show "tagged out = filter (\<lambda>(a, sc, x). \<not> drops (sfLib env) rs signal now (ctx a sc x)) (tagged td)"
    "err = Some ErrSkipProcessingData \<longleftrightarrow> tagged out = []" "clean out"
    "sfTotal ''evaluated'' fp' = sfTotal ''evaluated'' fp + int (length (tagged td))"
    "sfTotal ''dropped'' fp' = sfTotal ''dropped'' fp + (int (length (tagged td)) - int (length (tagged out)))"
    "fp_store fp' = fp_store fp"
    using F J(1) F(1) J(2) tagged_empty[OF J(2)] J(3,4) by (simp_all only: fst_conv snd_conv sfTotal_frame)
qed

lemma spans_filtered:
  assumes "rule_store (sfOps env) I" "I (fp_store fp)" "sf_env_ok env" "pdata_ok lib"
    and "sfProcessTraces env lib td fp = ((out, err), fp')"
  defines "rs \<equiv> soCurrent (sfOps env) (fp_store fp)"
  shows "tagged out = filter (\<lambda>(a, sc, sp). \<not> snd (shouldDrop (sfLib env) rs signalTraces (spanCtx a sc sp) (shd (fp_clock fp)))) (tagged td)
    \<and> (err = Some ErrSkipProcessingData \<longleftrightarrow> rsTraces rs \<noteq> [] \<and> tagged out = [])
    \<and> sfTotal ''dropped'' fp' = sfTotal ''dropped'' fp + (int (length (tagged td)) - int (length (tagged out)))
    \<and> I (fp_store fp')"
proof (cases "rsTraces rs = []")
  case True
  then have "\<not> drops (sfLib env) rs signalTraces (shd (fp_clock fp)) e" for e
    by (intro drops_norules) (simp add: rulesFor_def)
  moreover have "out = td" "err = None" "fp' = fp" using True assms(5) by (simp_all add: sfProcessTraces_def rs_def)
  ultimately show ?thesis using assms(2) True by (simp add: drops_def)
next
  case False
  have wf: "wf_set rs" unfolding rs_def by (rule rule_store.current_wf[OF assms(1,2)])
  have "finish env signalTraces (pruneResources lib (\<lambda>a sc s x.
      let (b, s1) = judge (sfLib env) rs signalTraces (shd (fp_clock fp)) (spanCtx a sc x) s in (b, x, s1)) noItems td)
      (snd (sfNow fp)) = ((out, err), fp')"
    using assms(5) False by (simp add: sfProcessTraces_def rs_def sfNow_def Let_def)
  from filter_run[OF assms(4) wf assms(3) this] False assms(2) show ?thesis by (simp add: drops_def del: rule_consts)
qed

text \<open>
  C26. The spans that go out are those no drop rule claims, unchanged, in order and in their
  resources and scopes; the batch is skipped exactly when rules are loaded and nothing is left;
  and the dropped counter grows by the number of spans removed.
\<close>

theorem filter_spans_exact:
  assumes "rule_store (sfOps env) I" "I (fp_store fp)" "sf_env_ok env" "pdata_ok lib"
    and "sfProcessTraces env lib td fp = ((out, err), fp')"
  defines "rs \<equiv> soCurrent (sfOps env) (fp_store fp)"
  shows "tagged out = filter (\<lambda>(a, sc, sp). \<not> snd (shouldDrop (sfLib env) rs signalTraces (spanCtx a sc sp) (shd (fp_clock fp)))) (tagged td)
    \<and> (err = Some ErrSkipProcessingData \<longleftrightarrow> rsTraces rs \<noteq> [] \<and> tagged out = [])
    \<and> sfTotal ''dropped'' fp' = sfTotal ''dropped'' fp + (int (length (tagged td)) - int (length (tagged out)))
    \<and> I (fp_store fp')"
  using assms(1-5) unfolding rs_def by (rule spans_filtered)

section \<open>Log records, and bodies nobody reads\<close>

lemma eval_cond_body: "ccSource c \<noteq> sourceBody \<Longrightarrow> eval_cond lib c (e\<lparr>ecBody := b\<rparr>) = eval_cond lib c e"
  by (simp add: eval_cond_def lookup_def del: rule_consts)

lemma firstMatch_body:
  assumes "\<forall>r \<in> set rules. \<forall>c \<in> set (crConds r). ccSource c \<noteq> sourceBody"
  shows "firstMatch lib (e\<lparr>ecBody := b\<rparr>) now rules = firstMatch lib e now rules"
  using assms
proof (induction rules)
  case (Cons r rules)
  have "list_all (\<lambda>c. eval_cond lib c (e\<lparr>ecBody := b\<rparr>)) (crConds r) = list_all (\<lambda>c. eval_cond lib c e) (crConds r)"
    using Cons.prems by (intro list_all_cong refl eval_cond_body) simp
  then have "matches lib r (e\<lparr>ecBody := b\<rparr>) now = matches lib r e now" by (simp only: matches_def)
  with Cons show ?case by simp
qed simp

lemma drops_lazy_body:
  assumes "wf_set rs"
  shows "drops lib rs signalLogs now (logCtx lib (rsNeedsBody rs) a sc lr) = drops lib rs signalLogs now (logCtx lib True a sc lr)"
proof (cases "rsNeedsBody rs")
  case False
  have eq: "logCtx lib True a sc lr = (logCtx lib False a sc lr)\<lparr>ecBody := libAsString lib (lrBody lr)\<rparr>"
    by (simp add: logCtx_def)
  have "rulesFor rs signalLogs = rsLogs rs" by (simp add: rulesFor_def)
  then have "\<forall>r \<in> set (rulesFor rs signalLogs). \<forall>c \<in> set (crConds r). ccSource c \<noteq> sourceBody"
    using assms False by (auto simp: wf_set_def simp del: rule_consts)
  from firstMatch_body[OF this] False show ?thesis
    by (simp add: drops_def shouldDrop_def match_rule_def eq del: rule_consts)
qed simp

lemma logs_filtered:
  assumes "rule_store (sfOps env) I" "I (fp_store fp)" "sf_env_ok env" "pdata_ok lib"
    and "sfProcessLogs env lib ld fp = ((out, err), fp')"
  defines "rs \<equiv> soCurrent (sfOps env) (fp_store fp)"
  shows "tagged out = filter (\<lambda>(a, sc, lr). \<not> snd (shouldDrop (sfLib env) rs signalLogs (logCtx (sfLib env) True a sc lr) (shd (fp_clock fp)))) (tagged ld)
    \<and> (err = Some ErrSkipProcessingData \<longleftrightarrow> rsLogs rs \<noteq> [] \<and> tagged out = [])
    \<and> sfTotal ''dropped'' fp' = sfTotal ''dropped'' fp + (int (length (tagged ld)) - int (length (tagged out)))
    \<and> I (fp_store fp')"
proof (cases "rsLogs rs = []")
  case True
  then have "\<not> drops (sfLib env) rs signalLogs (shd (fp_clock fp)) e" for e
    by (intro drops_norules) (simp add: rulesFor_def)
  moreover have "out = ld" "err = None" "fp' = fp" using True assms(5) by (simp_all add: sfProcessLogs_def rs_def)
  ultimately show ?thesis using assms(2) True by (simp add: drops_def)
next
  case False
  have wf: "wf_set rs" unfolding rs_def by (rule rule_store.current_wf[OF assms(1,2)])
  have "finish env signalLogs (pruneResources lib (\<lambda>a sc s x.
      let (b, s1) = judge (sfLib env) rs signalLogs (shd (fp_clock fp)) (logCtx (sfLib env) (rsNeedsBody rs) a sc x) s in (b, x, s1)) noItems ld)
      (snd (sfNow fp)) = ((out, err), fp')"
    using assms(5) False by (simp add: sfProcessLogs_def rs_def sfNow_def Let_def)
  from filter_run[OF assms(4) wf assms(3) this] False assms(2) show ?thesis
    unfolding drops_lazy_body[OF wf] by (simp add: drops_def del: rule_consts)
qed

text \<open>
  C27. Skipping the conversion of bodies that no rule reads changes nothing: the log records that
  go out are those no drop rule claims when every record's body is converted.
\<close>

theorem filter_logs_exact:
  assumes "rule_store (sfOps env) I" "I (fp_store fp)" "sf_env_ok env" "pdata_ok lib"
    and "sfProcessLogs env lib ld fp = ((out, err), fp')"
  defines "rs \<equiv> soCurrent (sfOps env) (fp_store fp)"
  shows "tagged out = filter (\<lambda>(a, sc, lr). \<not> snd (shouldDrop (sfLib env) rs signalLogs (logCtx (sfLib env) True a sc lr) (shd (fp_clock fp)))) (tagged ld)
    \<and> (err = Some ErrSkipProcessingData \<longleftrightarrow> rsLogs rs \<noteq> [] \<and> tagged out = [])
    \<and> sfTotal ''dropped'' fp' = sfTotal ''dropped'' fp + (int (length (tagged ld)) - int (length (tagged out)))
    \<and> I (fp_store fp')"
  using assms(1-5) unfolding rs_def by (rule logs_filtered)

section \<open>Data points\<close>

text \<open>The data points of metrics, with what a rule sees of them.\<close>

definition points :: "(attrs \<times> string \<times> Metric) list \<Rightarrow> (attrs \<times> string \<times> string \<times> DataPoint) list" where
  "points ts = concat (map (\<lambda>(a, sc, m). map (\<lambda>dp. (a, sc, mName m, dp)) (dataPoints (mData m))) ts)"

lemma points_simps [simp]:
  "points [] = []"
  "points ((a, sc, m) # ts) = map (\<lambda>dp. (a, sc, mName m, dp)) (dataPoints (mData m)) @ points ts"
  by (simp_all add: points_def)

lemma judgeAll_append:
  "judgeAll lib rs signal now ctx s (xs @ ys) =
   (fst (judgeAll lib rs signal now ctx s xs) @ fst (judgeAll lib rs signal now ctx (snd (judgeAll lib rs signal now ctx s xs)) ys),
    snd (judgeAll lib rs signal now ctx (snd (judgeAll lib rs signal now ctx s xs)) ys))"
  by (simp add: judgeAll_def seqRemoveIf_append)

lemma judgeAll_map:
  "judgeAll lib rs signal now ctx s (map h xs) =
   (map h (fst (judgeAll lib rs signal now (\<lambda>x. ctx (h x)) s xs)), snd (judgeAll lib rs signal now (\<lambda>x. ctx (h x)) s xs))"
  unfolding judgeAll_def by (induction xs arbitrary: s) (simp_all add: split_beta Let_def)

definition keepPoint ::
  "'re ruleLib \<Rightarrow> 're ruleSet \<Rightarrow> string \<Rightarrow> gotime \<Rightarrow> attrs \<Rightarrow> string \<Rightarrow> Metric \<Rightarrow> attrs \<Rightarrow> filterTally \<Rightarrow> bool \<times> filterTally" where
  "keepPoint lib rs signal now a sc m as s = (let (b, s1) = judge lib rs signal now (pointCtx a sc (mName m) as) s in (\<not> b, s1))"

lemma removePoints_judged:
  "removePoints seqRemoveIf (keepPoint lib rs signal now a sc m) s dps
   = judgeAll lib rs signal now (\<lambda>dp. pointCtx a sc (mName m) (dpAttributes dp)) s dps"
  unfolding removePoints_def judgeAll_def keepPoint_def
  by (induction dps arbitrary: s) (simp_all add: split_beta Let_def)

lemma removeDataPoints_judged:
  fixes lib rs signal now a sc m s
  defines "R \<equiv> judgeAll lib rs signal now (\<lambda>dp. pointCtx a sc (mName m) (dpAttributes dp)) s (dataPoints (mData m))"
  shows "case removeDataPoints seqRemoveIf (keepPoint lib rs signal now a sc m) s m of (b, m', s') \<Rightarrow>
    dataPoints (mData m') = fst R \<and> mName m' = mName m \<and> s' = snd R \<and> (b \<longrightarrow> fst R = [])"
  unfolding R_def
  by (cases "mData m")
    (simp_all add: removeDataPoints_def removePoints_judged dataPoints_def split_beta Let_def, simp add: judgeAll_def)

lemma metric_points:
  "points (fst (seqRemoveIf (tagClosure (\<lambda>a sc s m. removeDataPoints seqRemoveIf (keepPoint lib rs signal now a sc m) s m)) s ts))
     = fst (judgeAll lib rs signal now (\<lambda>(a, sc, nm, dp). pointCtx a sc nm (dpAttributes dp)) s (points ts))
   \<and> snd (seqRemoveIf (tagClosure (\<lambda>a sc s m. removeDataPoints seqRemoveIf (keepPoint lib rs signal now a sc m) s m)) s ts)
     = snd (judgeAll lib rs signal now (\<lambda>(a, sc, nm, dp). pointCtx a sc nm (dpAttributes dp)) s (points ts))"
proof (induction ts arbitrary: s)
  case (Cons t ts)
  obtain a sc m where t: "t = (a, sc, m)" by (metis prod_cases3)
  obtain b m' s' where r: "removeDataPoints seqRemoveIf (keepPoint lib rs signal now a sc m) s m = (b, m', s')" by (metis prod_cases3)
  let ?R = "judgeAll lib rs signal now (\<lambda>dp. pointCtx a sc (mName m) (dpAttributes dp)) s (dataPoints (mData m))"
  have R: "dataPoints (mData m') = fst ?R" "mName m' = mName m" "s' = snd ?R" "b \<longrightarrow> fst ?R = []"
    using removeDataPoints_judged[of lib rs signal now a sc m s] by (simp_all add: r)
  show ?case
    using Cons[of s'] R by (cases b) (simp_all add: t tagClosure_def r judgeAll_append judgeAll_map split_beta)
qed (simp add: judgeAll_def)

lemma points_filtered:
  assumes "rule_store (sfOps env) I" "I (fp_store fp)" "sf_env_ok env" "pdata_ok lib" "rm = seqRemoveIf"
    and "sfProcessMetrics env lib rm md fp = ((out, err), fp')"
  defines "rs \<equiv> soCurrent (sfOps env) (fp_store fp)"
  shows "points (tagged out) = filter (\<lambda>(a, sc, nm, dp).
        \<not> snd (shouldDrop (sfLib env) rs signalMetrics (pointCtx a sc nm (dpAttributes dp)) (shd (fp_clock fp)))) (points (tagged md))
    \<and> (err = Some ErrSkipProcessingData \<longleftrightarrow> rsMetrics rs \<noteq> [] \<and> tagged out = [])
    \<and> sfTotal ''dropped'' fp' = sfTotal ''dropped'' fp + (int (length (points (tagged md))) - int (length (points (tagged out))))
    \<and> I (fp_store fp')"
proof (cases "rsMetrics rs = []")
  case True
  then have "\<not> drops (sfLib env) rs signalMetrics (shd (fp_clock fp)) e" for e
    by (intro drops_norules) (simp add: rulesFor_def)
  moreover have "out = md" "err = None" "fp' = fp" using True assms(6) by (simp_all add: sfProcessMetrics_def rs_def)
  ultimately show ?thesis using assms(2) True by (simp add: drops_def case_prod_unfold)
next
  case False
  let ?now = "shd (fp_clock fp)"
  let ?J = "judgeAll (sfLib env) rs signalMetrics ?now (\<lambda>(a, sc, nm, dp). pointCtx a sc nm (dpAttributes dp)) noItems (points (tagged md))"
  have wf: "wf_set rs" unfolding rs_def by (rule rule_store.current_wf[OF assms(1,2)])
  obtain o' s where r: "(o', s) = pruneResources lib
      (\<lambda>a sc s m. removeDataPoints seqRemoveIf (keepPoint (sfLib env) rs signalMetrics ?now a sc m) s m) noItems md"
    using prod.collapse by blast
  have fin: "finish env signalMetrics (o', s) (snd (sfNow fp)) = ((out, err), fp')"
    unfolding r using assms(6) False
    by (simp add: sfProcessMetrics_def rs_def sfNow_def assms(5) keepPoint_def[abs_def] Let_def del: rule_consts)
  have pts: "points (tagged o') = fst ?J" "s = snd ?J"
    using pruneResources_tagged[OF assms(4), of "\<lambda>a sc s m. removeDataPoints seqRemoveIf (keepPoint (sfLib env) rs signalMetrics ?now a sc m) s m" noItems md]
      metric_points[of "sfLib env" rs signalMetrics ?now noItems "tagged md"]
    unfolding r[symmetric] fst_conv snd_conv by (simp_all only:)
  have cl: "clean o'"
    using pruneResources_clean[OF assms(4), of "\<lambda>a sc s m. removeDataPoints seqRemoveIf (keepPoint (sfLib env) rs signalMetrics ?now a sc m) s m" noItems md]
    by (simp only: r[symmetric] fst_conv)
  note run = judge_run[OF wf, of "sfLib env" signalMetrics ?now "\<lambda>(a, sc, nm, dp). pointCtx a sc nm (dpAttributes dp)" noItems "points (tagged md)"]
  have "0 \<le> evaluated s" using run pts by (simp add: noItems_def)
  note F = finish_spec[OF assms(3) this fin]
  have tot: "tallyTotal (dropped s) = int (length (points (tagged md))) - int (length (points (tagged out)))"
    using run pts F(1) by (simp add: noItems_def tallyTotal_def[of "[]"])
  have "points (tagged out) = filter (\<lambda>(a, sc, nm, dp). \<not> drops (sfLib env) rs signalMetrics ?now (pointCtx a sc nm (dpAttributes dp))) (points (tagged md))"
    using run pts F(1) by (simp add: case_prod_unfold)
  then show ?thesis
    using F tot False assms(2) tagged_empty[OF cl] by (simp add: drops_def del: rule_consts)
qed


section \<open>Start\<close>


section \<open>Examples\<close>

definition exampleSfEnv :: "(string redisRuleStore, string) sfEnv" where
  "exampleSfEnv = \<lparr>sfLib = exampleRuleLib, sfOps = redisStoreOps exampleRuleLib, sfIter = (\<lambda>d. d)\<rparr>"

definition exampleFp :: "string redisRuleStore statefulFilterProcessor" where
  "exampleFp = \<lparr>fp_config = sfCreateDefaultConfig, fp_store = snd (refresh exampleRuleLib True examplePoll exampleStore),
     fp_dropLog = None, fp_gaugeReg = False, fp_measurements = [], fp_clock = sconst 0\<rparr>"

definition shopResource :: "'a list \<Rightarrow> 'a Resource" where
  "shopResource items = \<lparr>rAttrs = [(''service.name'', VStr ''SHOP'')], rScopes = [\<lparr>scName = '''', scItems = items\<rparr>]\<rparr>"

lemma shop_tagged [simp]: "tagScopes (rAttrs (shopResource items)) (rScopes (shopResource items)) = map (\<lambda>x. ([(''service.name'', VStr ''SHOP'')], '''', x)) items"
  by (simp add: shopResource_def)

lemma exampleFp_store: "rr_inv (fp_store exampleFp)" "sf_env_ok exampleSfEnv" "rule_store (sfOps exampleSfEnv) rr_inv"
  "sfTotal c exampleFp = 0" "shd (fp_clock exampleFp) = 0" "sfLib exampleSfEnv = exampleRuleLib"
  by (simp_all add: exampleFp_def exampleStore_def newRuleStore_inv refresh_inv sf_env_ok_def exampleSfEnv_def sfTotal_def
      rr.rule_store_axioms)

lemma exampleFp_rules:
  "s \<in> {''traces'', ''metrics'', ''logs''} \<Longrightarrow>
   rulesFor (soCurrent (sfOps exampleSfEnv) (fp_store exampleFp)) s = [exampleKeepRule, exampleDropRule]"
proof -
  have "maxRules exampleStore = - 1" by (simp add: exampleStore_def newRuleStoreWithClient_def)
  then have "snapshot (fp_store exampleFp) = fst (buildRuleSet exampleRuleLib [(''d'', ''drop''), (''k'', ''keep'')] 7 (- 1) 5)"
    by (simp add: exampleFp_def refresh_def examplePoll_def readVersion_def markSuccess_def split_beta Let_def)
  then show "s \<in> {''traces'', ''metrics'', ''logs''} \<Longrightarrow>
    rulesFor (soCurrent (sfOps exampleSfEnv) (fp_store exampleFp)) s = [exampleKeepRule, exampleDropRule]"
    by (simp add: exampleSfEnv_def current_def example_rules)
qed

lemma example_decision:
  assumes "s \<in> {''traces'', ''metrics'', ''logs''}" "ecResource e = [(''service.name'', VStr ''SHOP'')]"
  shows "snd (shouldDrop exampleRuleLib (soCurrent (sfOps exampleSfEnv) (fp_store exampleFp)) s e now) \<longleftrightarrow> \<not> prefix ''pay'' (ecName e)"
proof -
  have drop: "matches exampleRuleLib exampleDropRule e now"
    using assms(2) by (simp add: matches_def exampleDropRule_def eval_cond_def lookup_def exampleRuleLib_def anyOf_def example_lower)
  have keep: "matches exampleRuleLib exampleKeepRule e now \<longleftrightarrow> prefix ''pay'' (ecName e)"
    by (auto simp: matches_def exampleKeepRule_def eval_cond_def lookup_def)
  have "crAction exampleKeepRule = ''keep''" "crAction exampleDropRule = ''drop''"
    by (simp_all add: exampleKeepRule_def exampleDropRule_def)
  then show ?thesis by (simp add: shouldDrop_def match_rule_def exampleFp_rules[OF assms(1)] drop keep)
qed

lemma skip_cases: "err = Some ErrSkipProcessingData \<or> err = None"
  by (cases err) (auto intro: sf_skip.exhaust)

definition namedSpan :: "string \<Rightarrow> Span" where
  "namedSpan nm = \<lparr>spTraceID = [1], spName = nm, spStatus = StatusCodeOk, spAttributes = []\<rparr>"

lemma namedSpan_sel [simp]: "spName (namedSpan nm) = nm"
  by (simp add: namedSpan_def)

theorem filter_spans_exact_witness:
  "\<exists>out fp'. sfProcessTraces exampleSfEnv seqLib [shopResource [namedSpan ''get'', namedSpan ''pay/1'']] exampleFp = ((out, None), fp')
   \<and> batchItems out = [namedSpan ''pay/1''] \<and> sfTotal ''dropped'' fp' = 1"
proof -
  obtain out err fp' where r: "sfProcessTraces exampleSfEnv seqLib [shopResource [namedSpan ''get'', namedSpan ''pay/1'']] exampleFp
      = ((out, err), fp')" by (metis prod.exhaust)
  have ctx: "ecResource (spanCtx a sc sp) = a" "ecName (spanCtx a sc sp) = spName sp" for a sc sp by (simp_all add: spanCtx_def)
  note T = filter_spans_exact[OF exampleFp_store(3,1,2) seqLib_ok r]
  have t: "tagged out = [([(''service.name'', VStr ''SHOP'')], '''', namedSpan ''pay/1'')]"
    using T by (simp add: exampleFp_store example_decision ctx)
  with T have "err \<noteq> Some ErrSkipProcessingData" "sfTotal ''dropped'' fp' = 1" by (simp_all add: exampleFp_store)
  with r t skip_cases[of err] show ?thesis using tagged_items[of out] by auto
qed

theorem filter_logs_exact_witness:
  "\<exists>out fp'. sfProcessLogs exampleSfEnv seqLib
      [shopResource [\<lparr>lrSeverityNumber = 9, lrSeverityText = ''INFO'', lrBody = VStr ''x'', lrAttributes = []\<rparr>]] exampleFp
      = ((out, Some ErrSkipProcessingData), fp') \<and> batchItems out = [] \<and> sfTotal ''dropped'' fp' = 1"
proof -
  let ?ld = "[shopResource [\<lparr>lrSeverityNumber = 9, lrSeverityText = ''INFO'', lrBody = VStr ''x'', lrAttributes = []\<rparr>]]"
  obtain out err fp' where r: "sfProcessLogs exampleSfEnv seqLib ?ld exampleFp = ((out, err), fp')" by (metis prod.exhaust)
  have ctx: "ecResource (logCtx l b a sc lr) = a" "ecName (logCtx l b a sc lr) = ''''" for l b a sc lr by (simp_all add: logCtx_def)
  have rules: "rsLogs (soCurrent (sfOps exampleSfEnv) (fp_store exampleFp)) \<noteq> []"
    using exampleFp_rules[of "''logs''"] by (simp add: rulesFor_def)
  note T = filter_logs_exact[OF exampleFp_store(3,1,2) seqLib_ok r]
  have t: "tagged out = []" using T by (simp add: exampleFp_store example_decision ctx)
  with T rules have "err = Some ErrSkipProcessingData" "sfTotal ''dropped'' fp' = 1" by (simp_all add: exampleFp_store)
  with r t show ?thesis using tagged_items[of out] by auto
qed



end
