(* ===== verification/Sf_System.thy ===== *)
theory Sf_System
  imports Sf_Registry Sf_Properties
begin

text \<open>
  The stateful filter from Redis to the batch: the documents a poll finds in the hash, the snapshot
  of the shared store, the handles of the pipelines, and what a pipeline forwards. The result
  is stated on the documents alone.
\<close>

section \<open>Documents\<close>

text \<open>
  A document of the hash claims an item: it is among those that are loaded, it is for the signal, it
  has the action, and its conditions, as written, hold.
\<close>

definition ruleAction :: "Rule \<Rightarrow> string" where
  "ruleAction r = (if Action r = '''' then actionDrop else Action r)"

definition doc_claims ::
  "'re ruleLib \<Rightarrow> (string \<times> string) list \<Rightarrow> int \<Rightarrow> string \<Rightarrow> string \<Rightarrow> evalCtx \<Rightarrow> gotime \<Rightarrow> bool" where
  "doc_claims lib docs m signal act e now \<longleftrightarrow>
     (\<exists>i \<in> fst ` set docs. \<exists>r cr ss. jsonUnmarshal lib (docOf docs i) = Inr r \<and> ruleAction r = act \<and> rule_holds lib r e now
        \<and> compile lib (docOf docs i) i = Inr (Some (cr, ss)) \<and> (cr, ss) \<in> set (loadedRules lib docs m) \<and> signal \<in> set ss)"

lemma doc_claims_iff:
  "doc_claims lib docs m signal act e now \<longleftrightarrow>
   (\<exists>cr ss. (cr, ss) \<in> set (loadedRules lib docs m) \<and> signal \<in> set ss \<and> crAction cr = act \<and> matches lib cr e now)"
proof
  assume "doc_claims lib docs m signal act e now"
  then obtain i r cr ss where d: "jsonUnmarshal lib (docOf docs i) = Inr r" "ruleAction r = act" "rule_holds lib r e now"
    "compile lib (docOf docs i) i = Inr (Some (cr, ss))" "(cr, ss) \<in> set (loadedRules lib docs m)" "signal \<in> set ss"
    unfolding doc_claims_def by blast
  have "matches lib cr e now" using compile_means[OF d(4)] d(1,3) by auto
  moreover have "crAction cr = act" using d(1,2) by (auto simp: ruleAction_def intro: compile_Some[OF d(4)])
  ultimately show "\<exists>cr ss. (cr, ss) \<in> set (loadedRules lib docs m) \<and> signal \<in> set ss \<and> crAction cr = act \<and> matches lib cr e now"
    using d(5,6) by blast
next
  assume "\<exists>cr ss. (cr, ss) \<in> set (loadedRules lib docs m) \<and> signal \<in> set ss \<and> crAction cr = act \<and> matches lib cr e now"
  then obtain cr ss where c: "(cr, ss) \<in> set (loadedRules lib docs m)" "signal \<in> set ss" "crAction cr = act" "matches lib cr e now" by blast
  obtain i where i: "i \<in> fst ` set docs" "compile lib (docOf docs i) i = Inr (Some (cr, ss))" by (rule loadedRules_compiled[OF c(1)])
  obtain r where r: "jsonUnmarshal lib (docOf docs i) = Inr r" "crAction cr = ruleAction r"
    by (rule compile_Some[OF i(2)]) (simp add: ruleAction_def)
  have "rule_holds lib r e now" using compile_means[OF i(2)] r(1) c(4) by auto
  then show "doc_claims lib docs m signal act e now" using c i r unfolding doc_claims_def by (intro bexI[OF _ i(1)]) metis
qed

text \<open>What a hash says about an item.\<close>

definition hash_drops :: "'re ruleLib \<Rightarrow> (string \<times> string) list \<Rightarrow> int \<Rightarrow> string \<Rightarrow> evalCtx \<Rightarrow> gotime \<Rightarrow> bool" where
  "hash_drops lib docs m signal e now \<longleftrightarrow>
     doc_claims lib docs m signal actionDrop e now \<and> \<not> doc_claims lib docs m signal actionKeep e now"

lemma shouldDrop_hash: "snd (shouldDrop lib (fst (buildRuleSet lib docs v m t)) signal e now) = hash_drops lib docs m signal e now"
  unfolding hash_drops_def doc_claims_iff by (rule shouldDrop_iff)

section \<open>From a poll to a batch\<close>

text \<open>A poll that is forced, or that sees a new version, and is answered, publishes the rules of the hash.\<close>

lemma refresh_fetches:
  assumes "readVersion p = Inr v" "pDocs p = Inr docs" "force \<or> v \<noteq> rsVersion (snapshot st)"
  shows "snapshot (snd (refresh lib force p st)) = fst (buildRuleSet lib docs v (maxRules st) (pBuilt p))"
  by (cases rule: refresh_cases[of lib force p st])
    (use assms in \<open>auto simp: markSuccess_def readVersion_def split: sum.splits option.splits\<close>)

text \<open>The registry after the store behind a handle has polled.\<close>

definition polled :: "'re ruleLib \<Rightarrow> bool \<Rightarrow> poll \<Rightarrow> nat \<Rightarrow> 're storeRegistry \<Rightarrow> 're storeRegistry" where
  "polled lib force p k r =
     r\<lparr>backends := (backends r)[h_backend (handles r ! k) := snd (refresh lib force p (embedded k r))]\<rparr>"

lemma polled_handle:
  assumes ok: "handle_ok k r"
  shows "handle_ok k (polled lib force p k r)" "embedded k (polled lib force p k r) = snd (refresh lib force p (embedded k r))"
proof -
  let ?b = "h_backend (handles r ! k)"
  have "store_ok (?b \<in> set (closedBackends r)) (embedded k r)"
    using ok unfolding embedded_def handle_ok_def by (intro stores_nth) auto
  then have "store_ok (?b \<in> set (closedBackends r)) (snd (refresh lib force p (embedded k r)))" by (rule store_ok_refresh)
  then show "handle_ok k (polled lib force p k r)"
    using ok stores_use[of r ?b "snd (refresh lib force p (embedded k r))"] by (simp add: handle_ok_def polled_def)
  show "embedded k (polled lib force p k r) = snd (refresh lib force p (embedded k r))"
    using ok by (simp add: polled_def embedded_def handle_ok_def)
qed

text \<open>Any pipeline of the component sees them: its handle reads the same store.\<close>

lemma polled_shared:
  assumes ok: "handle_ok k r" and same: "h_backend (handles r ! k') = h_backend (handles r ! k)" and k': "k' < length (handles r)"
  shows "handle_ok k' (polled lib force p k r)" "embedded k' (polled lib force p k r) = snd (refresh lib force p (embedded k r))"
  using polled_handle[OF ok, of lib force p] same k' by (simp_all add: handle_ok_def embedded_def polled_def)


lemma example_loaded:
  "loadedRules exampleRuleLib [(''d'', ''drop''), (''k'', ''keep'')] 500 =
   [(exampleDropRule, [''traces'', ''metrics'', ''logs'']), (exampleKeepRule, [''traces'', ''metrics'', ''logs''])]"
proof -
  have "sort [''d'', ''k''] = [''d'', ''k'']" by code_simp
  then show ?thesis by (simp add: loadedRules_def capped_def docOf_def example_compile)
qed

lemma example_hash:
  assumes "ecResource e = [(''service.name'', VStr ''SHOP'')]"
  shows "hash_drops exampleRuleLib [(''d'', ''drop''), (''k'', ''keep'')] 500 ''traces'' e now \<longleftrightarrow> \<not> prefix ''pay'' (ecName e)"
proof -
  have drop: "matches exampleRuleLib exampleDropRule e now"
    using assms by (simp add: matches_def exampleDropRule_def eval_cond_def lookup_def exampleRuleLib_def anyOf_def example_lower)
  have keep: "matches exampleRuleLib exampleKeepRule e now \<longleftrightarrow> prefix ''pay'' (ecName e)"
    by (auto simp: matches_def exampleKeepRule_def eval_cond_def lookup_def)
  have "crAction exampleKeepRule = ''keep''" "crAction exampleDropRule = ''drop''"
    by (simp_all add: exampleKeepRule_def exampleDropRule_def)
  moreover have two: "(\<exists>cr ss. (cr, ss) \<in> set [(a, s), (b, s)] \<and> P cr ss) \<longleftrightarrow> P a s \<or> P b s"
    for a b :: "string compiledRule" and s :: "string list" and P by auto
  ultimately show ?thesis unfolding hash_drops_def doc_claims_iff example_loaded two using drop keep by simp
qed


end
