(* ===== verification/Telemetry.thy ===== *)
theory Telemetry
  imports Prelude
begin

text \<open>
  The instruments of both processors (\<^verbatim>\<open>telemetry.go\<close> and the \<^verbatim>\<open>TelemetryBuilder\<close> it adapts, in
  \<^verbatim>\<open>internal/metadata\<close>). The OpenTelemetry metrics library is a parameter: \<open>meterApi\<close> gathers the
  calls that create an instrument, each with the error it may return, and the registration of a
  callback. A callback is what it observes at a scrape, given the context. Nothing is assumed of
  the library. Shown: a processor's telemetry is created exactly when every instrument is, the
  error reports the failures, and every field of the processors' records is the instrument of its
  name and kind.
\<close>

section \<open>The metrics library\<close>

type_synonym observeOpts = "(string \<times> string) list"

datatype observed = ObsInt64 int observeOpts | ObsFloat64 rat observeOpts

record ('c, 'i, 'r, 'e) meterApi =
  mkInt64Counter :: "string \<Rightarrow> string \<Rightarrow> string \<Rightarrow> 'i \<times> 'e option"
  mkInt64ObservableGauge :: "string \<Rightarrow> string \<Rightarrow> string \<Rightarrow> 'i \<times> 'e option"
  mkFloat64ObservableGauge :: "string \<Rightarrow> string \<Rightarrow> string \<Rightarrow> 'i \<times> 'e option"
  meterRegisterCallback :: "('c \<Rightarrow> ('i \<times> observed) list) \<Rightarrow> 'i list \<Rightarrow> 'e + 'r"

type_synonym ('c, 'i, 'r, 'e) meterProvider = "string \<Rightarrow> ('c, 'i, 'r, 'e) meterApi"

text \<open>\<^verbatim>\<open>errors.Join\<close>, with the errors joined so far as a list; no error is the empty list.\<close>

definition joinErr :: "'e list \<Rightarrow> 'e option \<Rightarrow> 'e list" where
  "joinErr errs err = (case err of None \<Rightarrow> errs | Some e \<Rightarrow> errs @ [e])"

section \<open>Builders\<close>

text \<open>
  What the two generated builders have in common. No option for \<^verbatim>\<open>NewTelemetryBuilder\<close> exists outside
  the generated packages, and they define none. \<open>builderShutdown\<close> gives the registrations it
  unregisters, in order.
\<close>

record ('c, 'i, 'r, 'e) builderBase =
  tbMeter :: "('c, 'i, 'r, 'e) meterApi"
  registrations :: "'r list"

fun observerInt64 :: "'i \<Rightarrow> int \<times> observeOpts \<Rightarrow> 'i \<times> observed" where
  "observerInt64 inst (v, opts) = (inst, ObsInt64 v opts)"

fun observerFloat64 :: "'i \<Rightarrow> rat \<times> observeOpts \<Rightarrow> 'i \<times> observed" where
  "observerFloat64 inst (v, opts) = (inst, ObsFloat64 v opts)"

definition registerCallback ::
  "'i \<Rightarrow> ('i \<Rightarrow> 'v \<Rightarrow> 'i \<times> observed) \<Rightarrow> ('c \<Rightarrow> 'v list) \<Rightarrow> ('c, 'i, 'r, 'e, 'm) builderBase_scheme
   \<Rightarrow> 'e option \<times> ('c, 'i, 'r, 'e, 'm) builderBase_scheme" where
  "registerCallback inst obs cb b =
     (case meterRegisterCallback (tbMeter b) (\<lambda>ctx. map (obs inst) (cb ctx)) [inst] of
        Inl err \<Rightarrow> (Some err, b)
      | Inr reg \<Rightarrow> (None, b\<lparr>registrations := registrations b @ [reg]\<rparr>))"

definition builderShutdown :: "('c, 'i, 'r, 'e, 'm) builderBase_scheme \<Rightarrow> 'r list" where
  "builderShutdown b = registrations b"

section \<open>The rate limiter\<close>

definition Meter :: "('c, 'i, 'r, 'e) meterProvider \<Rightarrow> ('c, 'i, 'r, 'e) meterApi" where
  "Meter mp = mp ''github.com/nochaosio/opentelemetry-collector-gateway/processor/ratelimitprocessor''"

record ('c, 'i, 'r, 'e) TelemetryBuilder = "('c, 'i, 'r, 'e) builderBase" +
  ProcessorRatelimitAllowedItems :: 'i
  ProcessorRatelimitBackendErrors :: 'i
  ProcessorRatelimitBucketAvailableTokens :: 'i
  ProcessorRatelimitBucketCapacityTokens :: 'i
  ProcessorRatelimitBucketEvictions :: 'i
  ProcessorRatelimitDeniedItems :: 'i
  ProcessorRatelimitFailOpenItems :: 'i
  ProcessorRatelimitPreservedItems :: 'i
  ProcessorRatelimitReceivedItems :: 'i

definition NewTelemetryBuilder :: "('c, 'i, 'r, 'e) meterProvider \<Rightarrow> ('c, 'i, 'r, 'e) TelemetryBuilder \<times> 'e list" where
  "NewTelemetryBuilder mp =
     (let m = Meter mp;
          (i1, err1) = mkInt64Counter m ''otelcol_processor_ratelimit_allowed_items''
            ''Number of items allowed through by the rate limit processor [Alpha]'' ''{item}'';
          errs1 = joinErr [] err1;
          (i2, err2) = mkInt64Counter m ''otelcol_processor_ratelimit_backend_errors''
            ''Transient errors from the rate-limit storage backend (e.g. Redis unreachable while fail-open) [Alpha]'' ''{error}'';
          errs2 = joinErr errs1 err2;
          (i3, err3) = mkFloat64ObservableGauge m ''otelcol_processor_ratelimit_bucket_available_tokens''
            ''Token-bucket tokens currently available (free) for watched keys; occupied = capacity - available [Alpha]'' ''{token}'';
          errs3 = joinErr errs2 err3;
          (i4, err4) = mkFloat64ObservableGauge m ''otelcol_processor_ratelimit_bucket_capacity_tokens''
            ''Token-bucket capacity (max tokens == configured limit) for watched keys [Alpha]'' ''{token}'';
          errs4 = joinErr errs3 err4;
          (i5, err5) = mkInt64Counter m ''otelcol_processor_ratelimit_bucket_evictions''
            ''Buckets evicted because the memory backend hit its max_buckets cap [Alpha]'' ''{bucket}'';
          errs5 = joinErr errs4 err5;
          (i6, err6) = mkInt64Counter m ''otelcol_processor_ratelimit_denied_items''
            ''Number of items denied by the rate limit processor [Alpha]'' ''{item}'';
          errs6 = joinErr errs5 err6;
          (i7, err7) = mkInt64Counter m ''otelcol_processor_ratelimit_fail_open_items''
            ''Items allowed through because the storage backend was unreachable (fail-open) and thus NOT rate-limited [Alpha]'' ''{item}'';
          errs7 = joinErr errs6 err7;
          (i8, err8) = mkInt64Counter m ''otelcol_processor_ratelimit_preserved_items''
            ''Number of critical items preserved via priority bypass (error spans, error+ logs) [Alpha]'' ''{item}'';
          errs8 = joinErr errs7 err8;
          (i9, err9) = mkInt64Counter m ''otelcol_processor_ratelimit_received_items''
            ''Number of items received by the rate limit processor [Alpha]'' ''{item}'';
          errs9 = joinErr errs8 err9
      in (\<lparr>tbMeter = m, registrations = [], ProcessorRatelimitAllowedItems = i1,
            ProcessorRatelimitBackendErrors = i2, ProcessorRatelimitBucketAvailableTokens = i3,
            ProcessorRatelimitBucketCapacityTokens = i4, ProcessorRatelimitBucketEvictions = i5,
            ProcessorRatelimitDeniedItems = i6, ProcessorRatelimitFailOpenItems = i7,
            ProcessorRatelimitPreservedItems = i8, ProcessorRatelimitReceivedItems = i9\<rparr>, errs9))"

definition RegisterProcessorRatelimitBucketAvailableTokensCallback ::
  "('c \<Rightarrow> (rat \<times> observeOpts) list) \<Rightarrow> ('c, 'i, 'r, 'e) TelemetryBuilder \<Rightarrow> 'e option \<times> ('c, 'i, 'r, 'e) TelemetryBuilder" where
  "RegisterProcessorRatelimitBucketAvailableTokensCallback cb b = registerCallback (ProcessorRatelimitBucketAvailableTokens b) observerFloat64 cb b"

definition RegisterProcessorRatelimitBucketCapacityTokensCallback ::
  "('c \<Rightarrow> (rat \<times> observeOpts) list) \<Rightarrow> ('c, 'i, 'r, 'e) TelemetryBuilder \<Rightarrow> 'e option \<times> ('c, 'i, 'r, 'e) TelemetryBuilder" where
  "RegisterProcessorRatelimitBucketCapacityTokensCallback cb b = registerCallback (ProcessorRatelimitBucketCapacityTokens b) observerFloat64 cb b"


record ('c, 'i, 'r, 'e) processorTelemetry =
  ptMeter :: "('c, 'i, 'r, 'e) meterApi"
  receivedItems :: 'i
  allowedItems :: 'i
  deniedItems :: 'i
  preservedItems :: 'i
  backendErrors :: 'i
  bucketEvictions :: 'i
  failOpenItems :: 'i
  bucketCapacity :: 'i
  bucketAvailable :: 'i

definition newProcessorTelemetry ::
  "('c, 'i, 'r, 'e) meterProvider \<Rightarrow> 'e list + ('c, 'i, 'r, 'e) processorTelemetry" where
  "newProcessorTelemetry mp =
     (let (tb, errs) = NewTelemetryBuilder mp
      in if errs \<noteq> [] then Inl errs
         else Inr \<lparr>ptMeter = Meter mp,
           receivedItems = ProcessorRatelimitReceivedItems tb, allowedItems = ProcessorRatelimitAllowedItems tb,
           deniedItems = ProcessorRatelimitDeniedItems tb, preservedItems = ProcessorRatelimitPreservedItems tb,
           backendErrors = ProcessorRatelimitBackendErrors tb, bucketEvictions = ProcessorRatelimitBucketEvictions tb,
           failOpenItems = ProcessorRatelimitFailOpenItems tb, bucketCapacity = ProcessorRatelimitBucketCapacityTokens tb,
           bucketAvailable = ProcessorRatelimitBucketAvailableTokens tb\<rparr>)"

section \<open>The stateful filter\<close>

definition sfMeter :: "('c, 'i, 'r, 'e) meterProvider \<Rightarrow> ('c, 'i, 'r, 'e) meterApi" where
  "sfMeter mp = mp ''github.com/nochaosio/opentelemetry-collector-gateway/processor/statefulfilterprocessor''"

record ('c, 'i, 'r, 'e) sfTelemetryBuilder = "('c, 'i, 'r, 'e) builderBase" +
  ProcessorStatefulfilterDroppedItems :: 'i
  ProcessorStatefulfilterEvaluatedItems :: 'i
  ProcessorStatefulfilterKeptItems :: 'i
  ProcessorStatefulfilterRefreshErrors :: 'i
  ProcessorStatefulfilterRulesAgeSeconds :: 'i
  ProcessorStatefulfilterRulesInvalid :: 'i
  ProcessorStatefulfilterRulesLoaded :: 'i
  ProcessorStatefulfilterRulesVersion :: 'i

definition sfNewTelemetryBuilder :: "('c, 'i, 'r, 'e) meterProvider \<Rightarrow> ('c, 'i, 'r, 'e) sfTelemetryBuilder \<times> 'e list" where
  "sfNewTelemetryBuilder mp =
     (let m = sfMeter mp;
          (i1, err1) = mkInt64Counter m ''otelcol_processor_statefulfilter_dropped_items''
            ''Items dropped by a shared filter rule, labelled by the rule that matched [Alpha]'' ''{item}'';
          errs1 = joinErr [] err1;
          (i2, err2) = mkInt64Counter m ''otelcol_processor_statefulfilter_evaluated_items''
            ''Items (spans, log records, metric data points) evaluated against the Redis rule set [Alpha]'' ''{item}'';
          errs2 = joinErr errs1 err2;
          (i3, err3) = mkInt64Counter m ''otelcol_processor_statefulfilter_kept_items''
            ''Items explicitly rescued by a keep rule that would otherwise have matched a drop rule [Alpha]'' ''{item}'';
          errs3 = joinErr errs2 err3;
          (i4, err4) = mkInt64ObservableGauge m ''otelcol_processor_statefulfilter_refresh_errors''
            ''Total failed rule refreshes since start (Redis unreachable, timeout); rules go stale, not empty [Alpha]'' ''{error}'';
          errs4 = joinErr errs3 err4;
          (i5, err5) = mkFloat64ObservableGauge m ''otelcol_processor_statefulfilter_rules_age_seconds''
            ''Seconds since the last successful rule refresh; climbing means this replica is enforcing stale rules [Alpha]'' ''s'';
          errs5 = joinErr errs4 err5;
          (i6, err6) = mkInt64ObservableGauge m ''otelcol_processor_statefulfilter_rules_invalid''
            ''Rule documents rejected at the last refresh (bad JSON, unknown operator, bad regex) [Alpha]'' ''{rule}'';
          errs6 = joinErr errs5 err6;
          (i7, err7) = mkInt64ObservableGauge m ''otelcol_processor_statefulfilter_rules_loaded''
            ''Filter rules currently active on this replica [Alpha]'' ''{rule}'';
          errs7 = joinErr errs6 err7;
          (i8, err8) = mkInt64ObservableGauge m ''otelcol_processor_statefulfilter_rules_version''
            ''Rule-set version this replica has applied; diverging values across replicas mean the fleet is out of sync [Alpha]'' ''{version}'';
          errs8 = joinErr errs7 err8
      in (\<lparr>tbMeter = m, registrations = [], ProcessorStatefulfilterDroppedItems = i1,
            ProcessorStatefulfilterEvaluatedItems = i2, ProcessorStatefulfilterKeptItems = i3,
            ProcessorStatefulfilterRefreshErrors = i4, ProcessorStatefulfilterRulesAgeSeconds = i5,
            ProcessorStatefulfilterRulesInvalid = i6, ProcessorStatefulfilterRulesLoaded = i7,
            ProcessorStatefulfilterRulesVersion = i8\<rparr>, errs8))"

definition RegisterProcessorStatefulfilterRefreshErrorsCallback ::
  "('c \<Rightarrow> (int \<times> observeOpts) list) \<Rightarrow> ('c, 'i, 'r, 'e) sfTelemetryBuilder \<Rightarrow> 'e option \<times> ('c, 'i, 'r, 'e) sfTelemetryBuilder" where
  "RegisterProcessorStatefulfilterRefreshErrorsCallback cb b = registerCallback (ProcessorStatefulfilterRefreshErrors b) observerInt64 cb b"

definition RegisterProcessorStatefulfilterRulesAgeSecondsCallback ::
  "('c \<Rightarrow> (rat \<times> observeOpts) list) \<Rightarrow> ('c, 'i, 'r, 'e) sfTelemetryBuilder \<Rightarrow> 'e option \<times> ('c, 'i, 'r, 'e) sfTelemetryBuilder" where
  "RegisterProcessorStatefulfilterRulesAgeSecondsCallback cb b = registerCallback (ProcessorStatefulfilterRulesAgeSeconds b) observerFloat64 cb b"

definition RegisterProcessorStatefulfilterRulesInvalidCallback ::
  "('c \<Rightarrow> (int \<times> observeOpts) list) \<Rightarrow> ('c, 'i, 'r, 'e) sfTelemetryBuilder \<Rightarrow> 'e option \<times> ('c, 'i, 'r, 'e) sfTelemetryBuilder" where
  "RegisterProcessorStatefulfilterRulesInvalidCallback cb b = registerCallback (ProcessorStatefulfilterRulesInvalid b) observerInt64 cb b"

definition RegisterProcessorStatefulfilterRulesLoadedCallback ::
  "('c \<Rightarrow> (int \<times> observeOpts) list) \<Rightarrow> ('c, 'i, 'r, 'e) sfTelemetryBuilder \<Rightarrow> 'e option \<times> ('c, 'i, 'r, 'e) sfTelemetryBuilder" where
  "RegisterProcessorStatefulfilterRulesLoadedCallback cb b = registerCallback (ProcessorStatefulfilterRulesLoaded b) observerInt64 cb b"

definition RegisterProcessorStatefulfilterRulesVersionCallback ::
  "('c \<Rightarrow> (int \<times> observeOpts) list) \<Rightarrow> ('c, 'i, 'r, 'e) sfTelemetryBuilder \<Rightarrow> 'e option \<times> ('c, 'i, 'r, 'e) sfTelemetryBuilder" where
  "RegisterProcessorStatefulfilterRulesVersionCallback cb b = registerCallback (ProcessorStatefulfilterRulesVersion b) observerInt64 cb b"


record ('c, 'i, 'r, 'e) sfProcessorTelemetry =
  sptMeter :: "('c, 'i, 'r, 'e) meterApi"
  evaluatedItems :: 'i
  droppedItems :: 'i
  keptItems :: 'i
  refreshErrors :: 'i
  rulesLoaded :: 'i
  rulesInvalid :: 'i
  rulesVersion :: 'i
  rulesAge :: 'i

definition sfNewProcessorTelemetry ::
  "('c, 'i, 'r, 'e) meterProvider \<Rightarrow> 'e list + ('c, 'i, 'r, 'e) sfProcessorTelemetry" where
  "sfNewProcessorTelemetry mp =
     (let (tb, errs) = sfNewTelemetryBuilder mp
      in if errs \<noteq> [] then Inl errs
         else Inr \<lparr>sptMeter = sfMeter mp,
           evaluatedItems = ProcessorStatefulfilterEvaluatedItems tb, droppedItems = ProcessorStatefulfilterDroppedItems tb,
           keptItems = ProcessorStatefulfilterKeptItems tb, refreshErrors = ProcessorStatefulfilterRefreshErrors tb,
           rulesLoaded = ProcessorStatefulfilterRulesLoaded tb, rulesInvalid = ProcessorStatefulfilterRulesInvalid tb,
           rulesVersion = ProcessorStatefulfilterRulesVersion tb, rulesAge = ProcessorStatefulfilterRulesAgeSeconds tb\<rparr>)"

section \<open>Instruments\<close>

text \<open>
  The fields of both records, each under the name of the metric its uses in the processors are
  meant for, and the outcome the constructors of the processors look at.
\<close>

definition rlCounters :: "('c, 'i, 'r, 'e) processorTelemetry \<Rightarrow> (string \<times> 'i) list" where
  "rlCounters t = [(''received_items'', receivedItems t), (''allowed_items'', allowedItems t), (''denied_items'', deniedItems t),
     (''preserved_items'', preservedItems t), (''backend_errors'', backendErrors t), (''bucket_evictions'', bucketEvictions t),
     (''fail_open_items'', failOpenItems t)]"

definition rlGauges :: "('c, 'i, 'r, 'e) processorTelemetry \<Rightarrow> (string \<times> 'i) list" where
  "rlGauges t = [(''bucket_capacity_tokens'', bucketCapacity t), (''bucket_available_tokens'', bucketAvailable t)]"

definition sfCounters :: "('c, 'i, 'r, 'e) sfProcessorTelemetry \<Rightarrow> (string \<times> 'i) list" where
  "sfCounters t = [(''evaluated_items'', evaluatedItems t), (''dropped_items'', droppedItems t), (''kept_items'', keptItems t)]"

definition sfGauges :: "('c, 'i, 'r, 'e) sfProcessorTelemetry \<Rightarrow> (string \<times> 'i) list" where
  "sfGauges t = [(''refresh_errors'', refreshErrors t), (''rules_loaded'', rulesLoaded t), (''rules_invalid'', rulesInvalid t),
     (''rules_version'', rulesVersion t)]"

definition telemetryErr :: "'e list + 't \<Rightarrow> 'e list option" where
  "telemetryErr res = (case res of Inl errs \<Rightarrow> Some errs | Inr _ \<Rightarrow> None)"

definition creationFails :: "('c, 'i, 'r, 'e) meterApi \<Rightarrow> string \<Rightarrow> 'e \<Rightarrow> bool" where
  "creationFails m n e \<longleftrightarrow> (\<exists>d u. snd (mkInt64Counter m n d u) = Some e \<or> snd (mkInt64ObservableGauge m n d u) = Some e
     \<or> snd (mkFloat64ObservableGauge m n d u) = Some e)"

definition rlNames :: "string list" where
  "rlNames = map (\<lambda>n. ''otelcol_processor_ratelimit_'' @ n) [''allowed_items'', ''backend_errors'', ''bucket_available_tokens'',
     ''bucket_capacity_tokens'', ''bucket_evictions'', ''denied_items'', ''fail_open_items'', ''preserved_items'', ''received_items'']"

definition sfNames :: "string list" where
  "sfNames = map (\<lambda>n. ''otelcol_processor_statefulfilter_'' @ n) [''dropped_items'', ''evaluated_items'', ''kept_items'',
     ''refresh_errors'', ''rules_age_seconds'', ''rules_invalid'', ''rules_loaded'', ''rules_version'']"

lemma joinErr_set [simp]: "set (joinErr errs err) = set errs \<union> set_option err"
  by (cases err) (auto simp: joinErr_def)

lemma joinErr_Nil [simp]: "joinErr errs err = [] \<longleftrightarrow> errs = [] \<and> err = None"
  by (cases err) (auto simp: joinErr_def)

definition errsFrom :: "('c, 'i, 'r, 'e) meterApi \<Rightarrow> string list \<Rightarrow> 'e list \<Rightarrow> bool" where
  "errsFrom m ns errs \<longleftrightarrow> (\<forall>e \<in> set errs. \<exists>n \<in> set ns. creationFails m n e)"

lemma errsFrom_Nil: "errsFrom m ns []"
  by (simp add: errsFrom_def)

lemma errsFrom_join:
  "errsFrom m ns errs \<Longrightarrow> n \<in> set ns \<Longrightarrow> errsFrom m ns (joinErr errs (snd (mkInt64Counter m n d u)))"
  "errsFrom m ns errs \<Longrightarrow> n \<in> set ns \<Longrightarrow> errsFrom m ns (joinErr errs (snd (mkInt64ObservableGauge m n d u)))"
  "errsFrom m ns errs \<Longrightarrow> n \<in> set ns \<Longrightarrow> errsFrom m ns (joinErr errs (snd (mkFloat64ObservableGauge m n d u)))"
  by (auto simp: errsFrom_def creationFails_def joinErr_def split: option.splits)

lemma builder_errors:
  "errsFrom (Meter mp) rlNames (snd (NewTelemetryBuilder mp))"
  "errsFrom (sfMeter mp) sfNames (snd (sfNewTelemetryBuilder mp))"
  unfolding NewTelemetryBuilder_def sfNewTelemetryBuilder_def Let_def split_beta snd_conv
  by (intro errsFrom_join errsFrom_Nil; simp add: rlNames_def sfNames_def)+

lemma telemetry_errors:
  "newProcessorTelemetry mp = Inl errs \<Longrightarrow> errs \<noteq> [] \<and> errsFrom (Meter mp) rlNames errs"
  "sfNewProcessorTelemetry mp = Inl errs' \<Longrightarrow> errs' \<noteq> [] \<and> errsFrom (sfMeter mp) sfNames errs'"
  using builder_errors[of mp]
  by (auto simp: newProcessorTelemetry_def sfNewProcessorTelemetry_def split_beta Let_def split: if_splits)

lemma madeI: "snd res = None \<Longrightarrow> fst res = i \<Longrightarrow> res = (i, None)"
  by (cases res) simp

lemma builder_instruments:
  assumes "snd (NewTelemetryBuilder mp) = []"
  shows "\<exists>d u. mkInt64Counter (Meter mp) ''otelcol_processor_ratelimit_received_items'' d u = (ProcessorRatelimitReceivedItems (fst (NewTelemetryBuilder mp)), None)"
    "\<exists>d u. mkInt64Counter (Meter mp) ''otelcol_processor_ratelimit_allowed_items'' d u = (ProcessorRatelimitAllowedItems (fst (NewTelemetryBuilder mp)), None)"
    "\<exists>d u. mkInt64Counter (Meter mp) ''otelcol_processor_ratelimit_denied_items'' d u = (ProcessorRatelimitDeniedItems (fst (NewTelemetryBuilder mp)), None)"
    "\<exists>d u. mkInt64Counter (Meter mp) ''otelcol_processor_ratelimit_preserved_items'' d u = (ProcessorRatelimitPreservedItems (fst (NewTelemetryBuilder mp)), None)"
    "\<exists>d u. mkInt64Counter (Meter mp) ''otelcol_processor_ratelimit_backend_errors'' d u = (ProcessorRatelimitBackendErrors (fst (NewTelemetryBuilder mp)), None)"
    "\<exists>d u. mkInt64Counter (Meter mp) ''otelcol_processor_ratelimit_bucket_evictions'' d u = (ProcessorRatelimitBucketEvictions (fst (NewTelemetryBuilder mp)), None)"
    "\<exists>d u. mkInt64Counter (Meter mp) ''otelcol_processor_ratelimit_fail_open_items'' d u = (ProcessorRatelimitFailOpenItems (fst (NewTelemetryBuilder mp)), None)"
    "\<exists>d u. mkFloat64ObservableGauge (Meter mp) ''otelcol_processor_ratelimit_bucket_capacity_tokens'' d u = (ProcessorRatelimitBucketCapacityTokens (fst (NewTelemetryBuilder mp)), None)"
    "\<exists>d u. mkFloat64ObservableGauge (Meter mp) ''otelcol_processor_ratelimit_bucket_available_tokens'' d u = (ProcessorRatelimitBucketAvailableTokens (fst (NewTelemetryBuilder mp)), None)"
  using assms unfolding NewTelemetryBuilder_def Let_def split_beta fst_conv snd_conv joinErr_Nil TelemetryBuilder.select_convs
  by - (elim conjE, intro exI madeI, assumption, rule refl)+

lemma sf_builder_instruments:
  assumes "snd (sfNewTelemetryBuilder mp) = []"
  shows "\<exists>d u. mkInt64Counter (sfMeter mp) ''otelcol_processor_statefulfilter_evaluated_items'' d u = (ProcessorStatefulfilterEvaluatedItems (fst (sfNewTelemetryBuilder mp)), None)"
    "\<exists>d u. mkInt64Counter (sfMeter mp) ''otelcol_processor_statefulfilter_dropped_items'' d u = (ProcessorStatefulfilterDroppedItems (fst (sfNewTelemetryBuilder mp)), None)"
    "\<exists>d u. mkInt64Counter (sfMeter mp) ''otelcol_processor_statefulfilter_kept_items'' d u = (ProcessorStatefulfilterKeptItems (fst (sfNewTelemetryBuilder mp)), None)"
    "\<exists>d u. mkInt64ObservableGauge (sfMeter mp) ''otelcol_processor_statefulfilter_refresh_errors'' d u = (ProcessorStatefulfilterRefreshErrors (fst (sfNewTelemetryBuilder mp)), None)"
    "\<exists>d u. mkInt64ObservableGauge (sfMeter mp) ''otelcol_processor_statefulfilter_rules_loaded'' d u = (ProcessorStatefulfilterRulesLoaded (fst (sfNewTelemetryBuilder mp)), None)"
    "\<exists>d u. mkInt64ObservableGauge (sfMeter mp) ''otelcol_processor_statefulfilter_rules_invalid'' d u = (ProcessorStatefulfilterRulesInvalid (fst (sfNewTelemetryBuilder mp)), None)"
    "\<exists>d u. mkInt64ObservableGauge (sfMeter mp) ''otelcol_processor_statefulfilter_rules_version'' d u = (ProcessorStatefulfilterRulesVersion (fst (sfNewTelemetryBuilder mp)), None)"
    "\<exists>d u. mkFloat64ObservableGauge (sfMeter mp) ''otelcol_processor_statefulfilter_rules_age_seconds'' d u = (ProcessorStatefulfilterRulesAgeSeconds (fst (sfNewTelemetryBuilder mp)), None)"
  using assms unfolding sfNewTelemetryBuilder_def Let_def split_beta fst_conv snd_conv joinErr_Nil sfTelemetryBuilder.select_convs
  by - (elim conjE, intro exI madeI, assumption, rule refl)+

lemma telemetry_instruments:
  assumes "newProcessorTelemetry mp = Inr t"
  shows "(n, i) \<in> set (rlCounters t) \<Longrightarrow> \<exists>d u. mkInt64Counter (Meter mp) (''otelcol_processor_ratelimit_'' @ n) d u = (i, None)"
    "(n, i) \<in> set (rlGauges t) \<Longrightarrow> \<exists>d u. mkFloat64ObservableGauge (Meter mp) (''otelcol_processor_ratelimit_'' @ n) d u = (i, None)"
proof -
  have ok: "snd (NewTelemetryBuilder mp) = []"
    using assms by (simp add: newProcessorTelemetry_def split_beta Let_def split: if_splits)
  note I = builder_instruments[OF ok]
  note t = assms[unfolded newProcessorTelemetry_def split_beta Let_def ok, simplified, symmetric]
  show "(n, i) \<in> set (rlCounters t) \<Longrightarrow> \<exists>d u. mkInt64Counter (Meter mp) (''otelcol_processor_ratelimit_'' @ n) d u = (i, None)"
    using I(1-7) by (auto simp: rlCounters_def t)
  show "(n, i) \<in> set (rlGauges t) \<Longrightarrow> \<exists>d u. mkFloat64ObservableGauge (Meter mp) (''otelcol_processor_ratelimit_'' @ n) d u = (i, None)"
    using I(8-9) by (auto simp: rlGauges_def t)
qed

lemma sf_telemetry_instruments:
  assumes "sfNewProcessorTelemetry mp = Inr t"
  shows "(n, i) \<in> set (sfCounters t) \<Longrightarrow> \<exists>d u. mkInt64Counter (sfMeter mp) (''otelcol_processor_statefulfilter_'' @ n) d u = (i, None)"
    "(n, i) \<in> set (sfGauges t) \<Longrightarrow> \<exists>d u. mkInt64ObservableGauge (sfMeter mp) (''otelcol_processor_statefulfilter_'' @ n) d u = (i, None)"
    "\<exists>d u. mkFloat64ObservableGauge (sfMeter mp) ''otelcol_processor_statefulfilter_rules_age_seconds'' d u = (rulesAge t, None)"
proof -
  have ok: "snd (sfNewTelemetryBuilder mp) = []"
    using assms by (simp add: sfNewProcessorTelemetry_def split_beta Let_def split: if_splits)
  note I = sf_builder_instruments[OF ok]
  note t = assms[unfolded sfNewProcessorTelemetry_def split_beta Let_def ok, simplified, symmetric]
  show "(n, i) \<in> set (sfCounters t) \<Longrightarrow> \<exists>d u. mkInt64Counter (sfMeter mp) (''otelcol_processor_statefulfilter_'' @ n) d u = (i, None)"
    using I(1-3) by (auto simp: sfCounters_def t)
  show "(n, i) \<in> set (sfGauges t) \<Longrightarrow> \<exists>d u. mkInt64ObservableGauge (sfMeter mp) (''otelcol_processor_statefulfilter_'' @ n) d u = (i, None)"
    using I(4-7) by (auto simp: sfGauges_def t)
  show "\<exists>d u. mkFloat64ObservableGauge (sfMeter mp) ''otelcol_processor_statefulfilter_rules_age_seconds'' d u = (rulesAge t, None)"
    using I(8) by (auto simp: t)
qed

text \<open>A registered callback observes the gauge of its name only, and shutdown unregisters what was registered, in order.\<close>

lemma registerCallback_ok:
  assumes "registerCallback inst obs cb b = (None, b')"
  shows "\<exists>reg. meterRegisterCallback (tbMeter b) (\<lambda>ctx. map (obs inst) (cb ctx)) [inst] = Inr reg
    \<and> builderShutdown b' = builderShutdown b @ [reg] \<and> tbMeter b' = tbMeter b"
  using assms by (auto simp: registerCallback_def builderShutdown_def split: sum.splits)

end
