(* ===== verification/Spec2Isabelle.thy ===== *)
theory Spec2Isabelle
  imports Rl_System Sf_System Telemetry
begin

text \<open>
  A verification library for the two processors of the OpenTelemetry collector gateway: the rate
  limiter (\<^verbatim>\<open>processor/ratelimitprocessor\<close>) and the stateful filter
  (\<^verbatim>\<open>processor/statefulfilterprocessor\<close>). The collector creates one instance of a processor per
  signal (traces, metrics, logs); the instances of one component share a backend through a
  reference-counted registry. Every batch of a pipeline passes through the instance's
  \<^verbatim>\<open>Consume\<close> function, which changes the batch in place and hands it on or rejects it.

  \<^bold>\<open>The rate limiter.\<close> A batch is split by key (a resource attribute, a header, ...); each key asks
  the \<^verbatim>\<open>RateLimiter\<close> for its number of items; the limiter draws on the key's bucket and on the global
  bucket of a \<^verbatim>\<open>Storage\<close>, in the process or in Redis, and gives back what one of the two did not
  grant; the processor removes what was not granted, or rejects the batch.

  \<^item> \<open>Float64\<close>: the arithmetic of Go's \<^verbatim>\<open>float64\<close> and of Lua numbers, with rounding.
  \<^item> \<open>Token_Bucket\<close>: \<^verbatim>\<open>TokenBucket\<close> of \<^verbatim>\<open>ratelimiter.go\<close> and the contract \<open>token_bucket\<close> of any bucket. Shown:
    the rate bound on everything a bucket grants, exact grants, refunds that undo them.
  \<^item> \<open>Rl_Config\<close>: \<^verbatim>\<open>config.go\<close>. Shown: positive limits, the fair share, defaults.
  \<^item> \<open>Storage_Iface\<close>: the \<^verbatim>\<open>Storage\<close> interface as a table of operations and its promises as the locale
    \<open>storage\<close>, which the in-process storage (\<open>Memory_Storage\<close>, with its eviction heap in
    \<open>Evict_Heap\<close>), the Redis storage (\<open>Redis_Storage\<close>) and a value of either kind (\<open>Rl_Registry\<close>)
    interpret. Shown: the map stays within its cap and evicts the oldest buckets, the Redis script
    keeps the contract of a bucket, the negative cache and the answers during an outage.
  \<^item> \<open>Rate_Limiter\<close>: \<^verbatim>\<open>RateLimiter\<close> on any storage. Shown: the range of a grant, the cost of a denial,
    the global ceiling over all keys.
  \<^item> \<open>Pdata\<close>: batches and the removal of their items. \<open>Rl_Processor\<close>: all of \<^verbatim>\<open>processor.go\<close>;
    \<open>Rl_Admission\<close>, \<open>Rl_Signals\<close> and \<open>Rl_Properties\<close> prove what it does to a batch, against the
    specification \<open>admission\<close> of what may go out: which spans and log records are dropped, whole
    traces, metrics per key, rejections and their retry delay, the balance of the counters, the
    bound on their labels.
  \<^item> \<open>Rl_Registry\<close>: \<^verbatim>\<open>newStorage\<close>, \<^verbatim>\<open>storage_shared.go\<close>, \<^verbatim>\<open>factory.go\<close>. Shown: a storage lives exactly as long
    as the pipelines on it. \<open>Rl_System\<close> puts all parts together: in every run of a collector every
    storage keeps its contract and every pipeline is on an open storage.

  \<^bold>\<open>The stateful filter.\<close> Rules are JSON documents in a Redis hash. A store polls the hash's version,
  compiles the documents into a snapshot when it moved, and publishes it; the processors match
  each item of a batch against the snapshot and remove what a drop rule claims.

  \<^item> \<open>Sf_Config\<close>: \<^verbatim>\<open>config.go\<close>. Shown: a valid configuration is what the store relies on.
  \<^item> \<open>Sf_Rules\<close>: \<^verbatim>\<open>rules.go\<close>; \<open>Sf_Matching\<close> gives the documents a declarative meaning and proves that
    compiled rules have it, that keep rules win, that a rule set is a function of the hash alone,
    respects its cap and is not disturbed by a bad document.
  \<^item> \<open>Sf_Store\<close>: \<^verbatim>\<open>store.go\<close> and the \<^verbatim>\<open>ruleStore\<close> interface as the locale \<open>rule_store\<close>. Shown: convergence
    with and without a version bump, an outage keeps the rules.
  \<^item> \<open>Sf_Processor\<close>: \<^verbatim>\<open>processor.go\<close>; \<open>Sf_Properties\<close> proves, for every store that keeps the contract, that
    exactly the claimed items go, that the counters say so, and how the processor starts without
    Redis.
  \<^item> \<open>Sf_Registry\<close>: \<^verbatim>\<open>store_shared.go\<close>, \<^verbatim>\<open>factory.go\<close>, and the runs of a collector. \<open>Sf_System\<close> goes from
    Redis to the batch: after an answered poll every open pipeline of the component forwards
    exactly what the documents in the hash leave.

  \<open>Shared_Registry\<close> holds the sharing scheme of both registries, over any backend and any extension
  of the entries. Its invariant, that an entry counts the open handles of its id and that a
  backend is closed once and not before its last handle, is proved there for both.

  \<^bold>\<open>Conventions.\<close> Go's \<^verbatim>\<open>int\<close> and \<^verbatim>\<open>int64\<close> are integers, with the range written out where the code relies
  on it (conversions, share arithmetic); \<^verbatim>\<open>float64\<close> is rounded after every operation. Errors are
  values of a datatype per function. A method that holds a mutex is one step; methods that run
  concurrently are steps in any order, which the step relations (\<open>ms_step\<close>, \<open>rs_step\<close> and those of the
  registries and of the collector) and the schedules of calls quantify over. Clock readings, the iteration orders of
  Go's maps, and what Redis answers are arguments or streams in the state. What is not in the
  repository is a parameter with its documented behaviour as a hypothesis: \<^verbatim>\<open>RemoveIf\<close> (\<open>pdata_ok\<close>),
  the order in which a map is walked over (a permutation, \<open>sf_env_ok\<close>), JSON, regular expressions,
  RFC3339, \<^verbatim>\<open>Value.AsString\<close>, the Unicode tables, TLS loading and the network (nothing assumed).
  All loops over data end, and so do their models: there is no fuel. The two background goroutines
  (clean-up, refresh) are partial functions over the stream of what their \<^verbatim>\<open>select\<close> receives; they
  are shown to return exactly when they are stopped.

  \<^bold>\<open>Telemetry and the whole.\<close> \<open>Telemetry\<close> models \<^verbatim>\<open>telemetry.go\<close> of both processors and the
  \<^verbatim>\<open>TelemetryBuilder\<close> of \<^verbatim>\<open>internal/metadata\<close>, over any metrics library. The processors' models take the
  outcome of the creation as an argument and keep every increment of a counter in the state. This
  theory joins the parts: the background loops, and the wiring of the instruments.

  \<^bold>\<open>Not modelled.\<close> \<^verbatim>\<open>cmd/otelcol-gateway\<close> is generated and lists the components of the distribution.
  Of \<^verbatim>\<open>internal/metadata\<close> the constants of \<^verbatim>\<open>generated_status.go\<close>, the unused \<^verbatim>\<open>Tracer\<close> and the builder
  options, of which none is defined, are left out; \<^verbatim>\<open>internal/metadatatest\<close> holds helpers of tests.
  Logging is not modelled but for the throttles that decide when to log. \<^verbatim>\<open>NewFactory\<close> and
  \<^verbatim>\<open>processorhelper\<close> only pass the modelled functions on. Timeouts and the sizes of buffers do not
  appear: a call that times out is one that fails. The error that closing a client may return,
  which is only logged, is left out.
\<close>

section \<open>The background loops\<close>

lemma fold_ticks: "fold (\<lambda>p st. snd (refresh lib False p st)) ps st = ticks lib ps st"
  by (induction ps arbitrary: st) simp_all

lemma cleanupLoop_inv:
  assumes run: "cleanupLoop maxAge evs s = Some s'" and inv: "ms_inv s" "\<forall>f s. Some f \<in> sset evs \<longrightarrow> ms_inv s \<longrightarrow> ms_inv (f s)"
  shows "ms_inv s'"
proof -
  have "\<exists>n. evs !! n = None" using run unfolding cleanupLoop_def by (rule selectLoop_returns)
  then obtain n where n: "evs !! n = None" "\<forall>i < n. evs !! i \<noteq> None" by (rule first_stop)
  have s': "s' = fold (\<lambda>f s. cleanup maxAge (f s)) (map the (stake n evs)) s"
    using selectLoop_stops[OF n(2,1), of "\<lambda>f s. cleanup maxAge (f s)" s] run unfolding cleanupLoop_def by simp
  have "\<forall>f \<in> set (map the (stake n evs)). Some f \<in> sset evs"
  proof
    fix f assume "f \<in> set (map the (stake n evs))"
    then obtain i where "i < n" "f = the (evs !! i)" by (auto simp: in_set_conv_nth)
    then show "Some f \<in> sset evs" using n(2) snth_sset[of evs i] by auto
  qed
  then show ?thesis unfolding s' using inv
    by (intro fold_invariant[where Q = "\<lambda>f. Some f \<in> sset evs" and P = ms_inv]) (auto intro: cleanup_inv)
qed




section \<open>The instruments\<close>

lemma rl_instruments:
  "case newProcessorTelemetry mp of
      Inl errs \<Rightarrow> errs \<noteq> [] \<and> errsFrom (Meter mp) rlNames errs
        \<and> newRateLimitProcessor env (telemetryErr (newProcessorTelemetry mp)) reg shared clk cfg st = Inl (TelemetryFailed errs)
    | Inr t \<Rightarrow> (\<forall>(n, i) \<in> set (rlCounters t). \<exists>d u. mkInt64Counter (Meter mp) (''otelcol_processor_ratelimit_'' @ n) d u = (i, None))
        \<and> (\<forall>(n, i) \<in> set (rlGauges t). \<exists>d u. mkFloat64ObservableGauge (Meter mp) (''otelcol_processor_ratelimit_'' @ n) d u = (i, None))
        \<and> (\<forall>errs. newRateLimitProcessor env (telemetryErr (newProcessorTelemetry mp)) reg shared clk cfg st \<noteq> Inl (TelemetryFailed errs))"
proof (cases "newProcessorTelemetry mp")
  case (Inl errs)
  then show ?thesis using telemetry_errors(1)[OF Inl] by (simp add: telemetryErr_def newRateLimitProcessor_def)
next
  case (Inr t)
  have "newRateLimitProcessor env None reg shared clk cfg st \<noteq> Inl (TelemetryFailed errs)" for errs
    by (simp add: newRateLimitProcessor_def Let_def split: option.split)
  then show ?thesis using telemetry_instruments[OF Inr] by (auto simp: Inr telemetryErr_def)
qed

lemma sf_instruments:
  "case sfNewProcessorTelemetry mp of
      Inl errs \<Rightarrow> errs \<noteq> [] \<and> errsFrom (sfMeter mp) sfNames errs
        \<and> newStatefulFilterProcessor (telemetryErr (sfNewProcessorTelemetry mp)) reg shared clk sfcfg sfst = Inl (SfTelemetryFailed errs)
    | Inr t \<Rightarrow> (\<forall>(n, i) \<in> set (sfCounters t). \<exists>d u. mkInt64Counter (sfMeter mp) (''otelcol_processor_statefulfilter_'' @ n) d u = (i, None))
        \<and> (\<forall>(n, i) \<in> set (sfGauges t). \<exists>d u. mkInt64ObservableGauge (sfMeter mp) (''otelcol_processor_statefulfilter_'' @ n) d u = (i, None))
        \<and> (\<exists>d u. mkFloat64ObservableGauge (sfMeter mp) ''otelcol_processor_statefulfilter_rules_age_seconds'' d u = (rulesAge t, None))
        \<and> (\<forall>errs. newStatefulFilterProcessor (telemetryErr (sfNewProcessorTelemetry mp)) reg shared clk sfcfg sfst \<noteq> Inl (SfTelemetryFailed errs))"
proof (cases "sfNewProcessorTelemetry mp")
  case (Inl errs)
  then show ?thesis using telemetry_errors(2)[OF Inl] by (simp add: telemetryErr_def newStatefulFilterProcessor_def)
next
  case (Inr t)
  have "newStatefulFilterProcessor None reg shared clk sfcfg sfst \<noteq> Inl (SfTelemetryFailed errs)" for errs
    by (simp add: newStatefulFilterProcessor_def split: option.split)
  then show ?thesis using sf_telemetry_instruments[OF Inr] by (auto simp: Inr telemetryErr_def)
qed


definition namedMeter :: "string list \<Rightarrow> (unit, string, string, string) meterProvider" where
  "namedMeter broken scope =
     (let mk = (\<lambda>n d u. (n, if n \<in> set broken then Some (''bad '' @ n) else None))
      in \<lparr>mkInt64Counter = mk, mkInt64ObservableGauge = mk, mkFloat64ObservableGauge = mk,
          meterRegisterCallback = (\<lambda>cb insts. Inr scope)\<rparr>)"


end
